theory Spec2Isabelle
  imports Main "HOL-Library.Word" "HOL-Library.Code_Target_Nat"
begin

section \<open>Characters, strings and sizes\<close>

text \<open>
  The header \<^verbatim>\<open>dynamic_library.h\<close> targets Windows: \<^verbatim>\<open>wchar_t\<close> is a 16-bit code
  unit and \<^verbatim>\<open>std::wstring\<close> a sequence of them; \<^verbatim>\<open>char\<close> is an 8-bit unit.
  \<^verbatim>\<open>std::wstring::size_type\<close> is an unsigned 64-bit integer, modelled as a natural
  number with the wrap-around written out wherever the source adds to a value that may
  be \<^verbatim>\<open>npos\<close>. The other sums of the source stay below 6, and its subtractions are
  of 1 from a positive number, so neither wraps.
\<close>

type_synonym wchar_t = "16 word"
type_synonym wstring = "wchar_t list"
type_synonym cchar = "8 word"
type_synonym cstring = "cchar list"
type_synonym size_type = nat

definition L :: "string \<Rightarrow> wstring" where
  \<comment> \<open>the wide literal \<^verbatim>\<open>L"..."\<close> of an ASCII text\<close>
  "L s = map (\<lambda>c. of_nat (of_char c)) s"

definition A :: "string \<Rightarrow> cstring" where
  \<comment> \<open>the narrow literal \<^verbatim>\<open>"..."\<close> of an ASCII text\<close>
  "A s = map (\<lambda>c. of_nat (of_char c)) s"

definition BSL :: wchar_t where
  \<comment> \<open>the backslash, which a HOL string literal cannot hold\<close>
  "BSL = 0x5C"

definition npos :: size_type where
  "npos = 2 ^ 64 - 1"

definition wrap :: "nat \<Rightarrow> size_type" where
  \<comment> \<open>unsigned arithmetic of \<^verbatim>\<open>size_type\<close>: results are taken modulo \<open>2 ^ 64\<close>\<close>
  "wrap n = n mod 2 ^ 64"

definition c_str :: "'a::zero list \<Rightarrow> 'a list" where
  \<comment> \<open>what a callee reads through the pointer \<^verbatim>\<open>s.c_str()\<close>: the characters before
      the first NUL\<close>
  "c_str s = takeWhile (\<lambda>c. c \<noteq> 0) s"

definition resize :: "'a::zero list \<Rightarrow> size_type \<Rightarrow> 'a list" where
  \<comment> \<open>\<^verbatim>\<open>basic_string::resize(n)\<close>: truncates, or pads with NUL characters\<close>
  "resize s n = take n s @ replicate (n - length s) 0"

section \<open>Path normalisation (namespace internal)\<close>

definition kSeparators :: wstring where
  \<comment> \<open>\<^verbatim>\<open>L"\\/"\<close> as an array: backslash, slash and the terminating NUL\<close>
  "kSeparators = [BSL, 0x2F, 0]"

definition kSeparatorsLength :: size_type where
  \<comment> \<open>\<^verbatim>\<open>arraysize(kSeparators)\<close>, which counts the terminating NUL\<close>
  "kSeparatorsLength = length kSeparators"

definition kCurrentDirectory :: wstring where
  \<comment> \<open>only ever assigned to a string, which copies the characters before the NUL\<close>
  "kCurrentDirectory = L ''.''"

definition FindDriveLetter :: "wstring \<Rightarrow> size_type" where
  "FindDriveLetter path =
     (if length path \<ge> 2 \<and> path ! 1 = 0x3A \<and>
         ((path ! 0 \<ge> 0x41 \<and> path ! 0 \<le> 0x5A) \<or>
          (path ! 0 \<ge> 0x61 \<and> path ! 0 \<le> 0x7A))
      then 1 else npos)"

fun IsSeparator_loop :: "wchar_t \<Rightarrow> nat \<Rightarrow> nat \<Rightarrow> bool" where
  "IsSeparator_loop character i 0 = False"
| "IsSeparator_loop character i (Suc n) =
     (if character = kSeparators ! i then True
      else IsSeparator_loop character (Suc i) n)"

definition IsSeparator :: "wchar_t \<Rightarrow> bool" where
  \<comment> \<open>the loop runs over \<open>i = 0, ..., kSeparatorsLength - 2\<close>\<close>
  "IsSeparator character = IsSeparator_loop character 0 (kSeparatorsLength - 1)"

text \<open>
  The loop of \<^verbatim>\<open>StripTrailingSeparators\<close>. Its state is the path, the position
  \<open>pos\<close> and \<open>last_stripped\<close>; \<open>pos\<close> is decremented at the end of every round,
  whether or not the path was shortened. \<open>pos > start\<close> keeps \<open>pos - 1\<close> from
  wrapping, and \<open>pos\<close> never exceeds the length of the path.
\<close>

fun StripTrailingSeparators_loop ::
  "size_type \<Rightarrow> wstring \<Rightarrow> size_type \<Rightarrow> size_type \<Rightarrow> wstring" where
  "StripTrailingSeparators_loop start path pos last_stripped =
     (if pos > start \<and> IsSeparator (path ! (pos - 1)) then
        (if pos \<noteq> start + 1 \<or> last_stripped = start + 2 \<or>
            \<not> IsSeparator (path ! (start - 1))
         then StripTrailingSeparators_loop start (resize path (pos - 1)) (pos - 1) pos
         else StripTrailingSeparators_loop start path (pos - 1) last_stripped)
      else path)"

declare StripTrailingSeparators_loop.simps [simp del]

definition StripTrailingSeparators :: "wstring \<Rightarrow> wstring" where
  "StripTrailingSeparators path =
     (let start = wrap (FindDriveLetter path + 2);
          last_stripped = npos
      in StripTrailingSeparators_loop start path (length path) last_stripped)"

text \<open>
  \<^verbatim>\<open>find_last_of(s, npos, n)\<close>: the greatest index of \<open>path\<close> whose character is
  among the first \<open>n\<close> characters of \<open>s\<close>, or \<^verbatim>\<open>npos\<close>.
\<close>

fun find_last_from :: "wstring \<Rightarrow> wstring \<Rightarrow> nat \<Rightarrow> size_type" where
  "find_last_from path chars 0 = npos"
| "find_last_from path chars (Suc i) =
     (if path ! i \<in> set chars then i else find_last_from path chars i)"

definition find_last_of :: "wstring \<Rightarrow> wstring \<Rightarrow> size_type \<Rightarrow> size_type" where
  "find_last_of path s n = find_last_from path (take n s) (length path)"

definition GetParent :: "wstring \<Rightarrow> wstring" where
  "GetParent path0 =
     (let path = StripTrailingSeparators path0;
          letter = FindDriveLetter path;
          last_separator = find_last_of path kSeparators (kSeparatorsLength - 1);
          path =
            (if last_separator = npos then resize path (wrap (letter + 1))
             else if last_separator = wrap (letter + 1) then resize path (wrap (letter + 2))
             else if last_separator = wrap (letter + 2) \<and>
                     IsSeparator (path ! wrap (letter + 1))
               then resize path (wrap (letter + 3))
             else if last_separator \<noteq> 0 then resize path last_separator
             else path);
          path = StripTrailingSeparators path
      in if length path = 0 then kCurrentDirectory else path)"


section \<open>The operating system\<close>

text \<open>
  The Win32 calls of the header are parameters of the model: a record of functions over
  an arbitrary state \<open>'w\<close> of the operating system. \<^verbatim>\<open>HMODULE\<close> and \<^verbatim>\<open>void*\<close> are
  addresses, with \<^verbatim>\<open>nullptr\<close> the address 0; \<^verbatim>\<open>BOOL\<close> is an \<^verbatim>\<open>int\<close>. A string
  argument of type \<^verbatim>\<open>const wchar_t*\<close> or \<^verbatim>\<open>const char*\<close> is the C string the callee
  reads; a null \<^verbatim>\<open>const char*\<close> is \<open>None\<close>. The calls that change the state of the
  process are recorded, in order, in \<open>calls\<close>.
\<close>

type_synonym HMODULE = nat
type_synonym FARPROC = nat
type_synonym DWORD = "32 word"
type_synonym BOOL = int

definition nullptr :: nat where
  "nullptr = 0"

definition MAX_PATH :: DWORD where
  \<comment> \<open>Modelled from the spec: the constant of \<^verbatim>\<open>Windows.h\<close>, "the platform's maximum
      path buffer", 260 characters\<close>
  "MAX_PATH = 260"

record 'w winapi =
  GetCurrentDirectoryW :: "DWORD \<Rightarrow> 'w \<Rightarrow> DWORD \<times> wstring"
  SetCurrentDirectoryW :: "wstring \<Rightarrow> 'w \<Rightarrow> BOOL \<times> 'w"
  LoadLibraryW :: "wstring \<Rightarrow> 'w \<Rightarrow> HMODULE \<times> 'w"
  FreeLibrary :: "HMODULE \<Rightarrow> 'w \<Rightarrow> BOOL \<times> 'w"
  GetModuleHandleW :: "wstring \<Rightarrow> 'w \<Rightarrow> HMODULE"
  GetProcAddress :: "HMODULE \<Rightarrow> cstring \<Rightarrow> 'w \<Rightarrow> FARPROC"

datatype oscall =
    SetCurrentDirectory_call wstring
  | LoadLibrary_call wstring
  | FreeLibrary_call HMODULE

record 'w process =
  calls :: "oscall list"
  os :: 'w

definition invoke :: "oscall \<Rightarrow> ('w \<Rightarrow> 'r \<times> 'w) \<Rightarrow> 'w process \<Rightarrow> 'r \<times> 'w process" where
  \<comment> \<open>a call into the operating system: its result, the new state, one more entry\<close>
  "invoke c f s = (let (r, w) = f (os s) in (r, \<lparr>calls = calls s @ [c], os = w\<rparr>))"

section \<open>Directory context and loader (namespace internal)\<close>

definition GetCurrentDirectory :: "'w winapi \<Rightarrow> wstring \<Rightarrow> 'w process \<Rightarrow> bool \<times> wstring" where
  \<comment> \<open>the result and the value of \<^verbatim>\<open>*dir\<close> afterwards\<close>
  "GetCurrentDirectory api dir s =
     (let (len, system_buffer) = GetCurrentDirectoryW api MAX_PATH (os s) in
      if len = 0 \<or> len > MAX_PATH then (False, dir)
      else (let dir_str = c_str system_buffer
            in (True, StripTrailingSeparators dir_str)))"

definition SetCurrentDirectory :: "'w winapi \<Rightarrow> wstring \<Rightarrow> 'w process \<Rightarrow> bool \<times> 'w process" where
  "SetCurrentDirectory api directory s =
     (let (ret, s') = invoke (SetCurrentDirectory_call (c_str directory))
                        (SetCurrentDirectoryW api (c_str directory)) s
      in (ret \<noteq> 0, s'))"

definition LoadNativeLibraryHelper ::
  "'w winapi \<Rightarrow> wstring \<Rightarrow> (wstring \<Rightarrow> 'w \<Rightarrow> HMODULE \<times> 'w) \<Rightarrow> 'w process
     \<Rightarrow> HMODULE \<times> 'w process" where
  "LoadNativeLibraryHelper api library_path load_library_api s =
     (let restore_directory = False;
          current_directory = [];
          (captured, current_directory) = GetCurrentDirectory api current_directory s;
          (restore_directory, s) =
            (if captured then
               (let plugin_path = GetParent library_path in
                if plugin_path \<noteq> []
                then (True, snd (SetCurrentDirectory api plugin_path s))
                else (restore_directory, s))
             else (restore_directory, s));
          (module, s) = invoke (LoadLibrary_call (c_str library_path))
                          (load_library_api (c_str library_path)) s;
          s = (if restore_directory then snd (SetCurrentDirectory api current_directory s)
               else s)
      in (module, s))"

definition LoadLibrary :: "'w winapi \<Rightarrow> wstring \<Rightarrow> 'w process \<Rightarrow> HMODULE \<times> 'w process" where
  \<comment> \<open>the parameter \<^verbatim>\<open>error\<close> is never read or written\<close>
  "LoadLibrary api path s = LoadNativeLibraryHelper api path (LoadLibraryW api) s"

definition UnloadNativeLibrary :: "'w winapi \<Rightarrow> HMODULE \<Rightarrow> 'w process \<Rightarrow> 'w process" where
  "UnloadNativeLibrary api library s =
     (if library = nullptr then s
      else snd (invoke (FreeLibrary_call library) (FreeLibrary api library) s))"

definition WellKnownLibrary :: "'w winapi \<Rightarrow> wstring \<Rightarrow> 'w process \<Rightarrow> bool" where
  "WellKnownLibrary api library_name s =
     (if library_name = [] then False
      else (let wellknown_handler = GetModuleHandleW api (c_str library_name) (os s)
            in nullptr \<noteq> wellknown_handler))"

definition GetFunctionPointerFromNativeLibrary ::
  "'w winapi \<Rightarrow> HMODULE \<Rightarrow> cstring option \<Rightarrow> 'w process \<Rightarrow> FARPROC" where
  "GetFunctionPointerFromNativeLibrary api library name s =
     (case name of None \<Rightarrow> nullptr
      | Some n \<Rightarrow> GetProcAddress api library n (os s))"

definition GetFunctionPointerFromNativeLibrary_name ::
  "'w winapi \<Rightarrow> wstring \<Rightarrow> cstring option \<Rightarrow> 'w process \<Rightarrow> FARPROC" where
  \<comment> \<open>the overload that takes the name of the library\<close>
  "GetFunctionPointerFromNativeLibrary_name api library_name name s =
     (if name = None then nullptr
      else (let wellknown_handler = GetModuleHandleW api (c_str library_name) (os s) in
            if nullptr = wellknown_handler then nullptr
            else GetFunctionPointerFromNativeLibrary api wellknown_handler name s))"

section \<open>The class DynamicLibrary (namespace utils)\<close>

text \<open>
  The members \<^verbatim>\<open>library_name_\<close> and \<^verbatim>\<open>library_\<close> are the fields
  \<open>member_library_name\<close> and \<open>member_library\<close>: a name of HOL cannot end in an
  underscore.
\<close>

record DynamicLibrary =
  member_library_name :: wstring
  member_library :: HMODULE

definition DynamicLibrary_default :: DynamicLibrary where
  "DynamicLibrary_default = \<lparr>member_library_name = [], member_library = nullptr\<rparr>"

definition DynamicLibrary_from_handle :: "HMODULE \<Rightarrow> DynamicLibrary" where
  "DynamicLibrary_from_handle library = \<lparr>member_library_name = [], member_library = library\<rparr>"

definition DynamicLibrary_from_path ::
  "'w winapi \<Rightarrow> wstring \<Rightarrow> 'w process \<Rightarrow> DynamicLibrary \<times> 'w process" where
  "DynamicLibrary_from_path api path s =
     (let (library, s') = LoadLibrary api path s
      in (\<lparr>member_library_name = [], member_library = library\<rparr>, s'))"

definition DynamicLibrary_from_name :: "wstring \<Rightarrow> DynamicLibrary" where
  \<comment> \<open>\<^verbatim>\<open>filename\<close> is a pointer to a C string, copied into \<^verbatim>\<open>library_name_\<close>\<close>
  "DynamicLibrary_from_name filename = \<lparr>member_library_name = c_str filename, member_library = nullptr\<rparr>"

definition DynamicLibrary_destroy :: "'w winapi \<Rightarrow> DynamicLibrary \<Rightarrow> 'w process \<Rightarrow> 'w process" where
  \<comment> \<open>the destructor\<close>
  "DynamicLibrary_destroy api this s = UnloadNativeLibrary api (member_library this) s"

definition is_valid :: "'w winapi \<Rightarrow> DynamicLibrary \<Rightarrow> 'w process \<Rightarrow> bool" where
  "is_valid api this s =
     (member_library this \<noteq> nullptr \<or> WellKnownLibrary api (member_library_name this) s)"

definition GetFunctionPointer ::
  "'w winapi \<Rightarrow> DynamicLibrary \<Rightarrow> cstring option \<Rightarrow> 'w process \<Rightarrow> FARPROC" where
  "GetFunctionPointer api this function_name s =
     (if \<not> is_valid api this s then nullptr
      else if member_library_name this = []
        then GetFunctionPointerFromNativeLibrary api (member_library this) function_name s
      else GetFunctionPointerFromNativeLibrary_name api (member_library_name this) function_name s)"


definition Reset ::
  "'w winapi \<Rightarrow> DynamicLibrary \<Rightarrow> HMODULE \<Rightarrow> 'w process \<Rightarrow> DynamicLibrary \<times> 'w process" where
  "Reset api this library s =
     (let s' = UnloadNativeLibrary api (member_library this) s
      in (this\<lparr>member_library := library\<rparr>, s'))"

definition Release :: "DynamicLibrary \<Rightarrow> HMODULE \<times> DynamicLibrary" where
  "Release this =
     (let result = member_library this
      in (result, this\<lparr>member_library := nullptr\<rparr>))"




section \<open>Notions of the specification\<close>

definition strip_start :: "wstring \<Rightarrow> size_type" where
  \<comment> \<open>the start boundary of \<^verbatim>\<open>StripTrailingSeparators\<close>, its local \<^verbatim>\<open>start\<close>:
      3 with a drive letter and 1 without\<close>
  "strip_start p = wrap (FindDriveLetter p + 2)"

definition trailing_separators :: "wstring \<Rightarrow> nat" where
  \<comment> \<open>the number of separators at the end of a path\<close>
  "trailing_separators p = length (takeWhile IsSeparator (rev p))"

definition root_path :: "wstring \<Rightarrow> bool" where
  \<comment> \<open>the roots named by the specification and by the comments of \<^verbatim>\<open>GetParent\<close>: an
      optional drive letter followed by one separator (the root directory) or by two
      (the alternate root), or the drive letter alone\<close>
  "root_path R =
     (let d = (if FindDriveLetter R = 1 then 2 else 0);
          rest = drop d R
      in length rest \<le> 2 \<and> list_all IsSeparator rest \<and> R \<noteq> [])"

definition nul_free :: "'a::zero list \<Rightarrow> bool" where
  \<comment> \<open>a string that holds no NUL character, as every path of the file system\<close>
  "nul_free s = (0 \<notin> set s)"

section \<open>A test double for the operating system\<close>

text \<open>
  The state is the current directory. The directory is reported when it fits the buffer
  and is not empty, every directory can be entered, and modules, resident modules and
  exported symbols are given by three tables.
\<close>

definition mock_api ::
  "(wstring \<Rightarrow> HMODULE) \<Rightarrow> (wstring \<Rightarrow> HMODULE) \<Rightarrow> (HMODULE \<Rightarrow> cstring \<Rightarrow> FARPROC)
     \<Rightarrow> wstring winapi" where
  "mock_api modules resident exports =
     \<lparr>GetCurrentDirectoryW =
        (\<lambda>n cwd. if length cwd < unat n then (of_nat (length cwd), cwd)
                 else (of_nat (length cwd + 1), [])),
      SetCurrentDirectoryW = (\<lambda>dir cwd. (1, dir)),
      LoadLibraryW = (\<lambda>path cwd. (modules path, cwd)),
      FreeLibrary = (\<lambda>library cwd. (1, cwd)),
      GetModuleHandleW = (\<lambda>name cwd. resident name),
      GetProcAddress = (\<lambda>library name cwd. exports library name)\<rparr>"

definition started_in :: "wstring \<Rightarrow> wstring process" where
  \<comment> \<open>a process in the given current directory that has made no call yet\<close>
  "started_in cwd = \<lparr>calls = [], os = cwd\<rparr>"


section \<open>Separators, drive letters and sizes\<close>

lemma IsSeparator_iff: "IsSeparator c \<longleftrightarrow> c = BSL \<or> c = 0x2F"
  by (auto simp: IsSeparator_def kSeparatorsLength_def kSeparators_def numeral_2_eq_2)

lemma separator_set: "c \<in> set (take (kSeparatorsLength - 1) kSeparators) \<longleftrightarrow> IsSeparator c"
  by (auto simp: kSeparatorsLength_def kSeparators_def IsSeparator_iff)

lemma FindDriveLetter_cases: "FindDriveLetter p = 1 \<or> FindDriveLetter p = npos"
  by (simp add: FindDriveLetter_def)

lemma npos_neq_1: "npos \<noteq> 1" "npos \<noteq> Suc 0" "1 \<noteq> npos" "Suc 0 \<noteq> npos"
  by (simp_all add: npos_def)

lemma FindDriveLetter_length: "FindDriveLetter p = 1 \<Longrightarrow> 2 \<le> length p"
  unfolding FindDriveLetter_def by (cases "2 \<le> length p") (simp_all add: npos_neq_1)

lemma FindDriveLetter_take: "2 \<le> k \<Longrightarrow> FindDriveLetter (take k q) = FindDriveLetter q"
  by (cases "2 \<le> length q") (auto simp: FindDriveLetter_def)

lemma drive_prefix: "FindDriveLetter (d # e # x # rest) = FindDriveLetter [d, e]"
  by (simp add: FindDriveLetter_def)

lemma separator_no_drive: "IsSeparator b \<Longrightarrow> FindDriveLetter (a # b # rest) = npos"
  by (auto simp: FindDriveLetter_def IsSeparator_iff BSL_def)

lemma drive_not_separator:
  assumes "FindDriveLetter R = 1"
  shows "\<not> IsSeparator (R ! 0)" "\<not> IsSeparator (R ! 1)"
proof -
  have c: "2 \<le> length R \<and> R ! 1 = 0x3A \<and>
        ((R ! 0 \<ge> 0x41 \<and> R ! 0 \<le> 0x5A) \<or> (R ! 0 \<ge> 0x61 \<and> R ! 0 \<le> 0x7A))"
  proof (rule ccontr)
    assume "\<not> ?thesis"
    then have "FindDriveLetter R = npos" unfolding FindDriveLetter_def by (rule if_not_P)
    with assms show False by (simp add: npos_neq_1)
  qed
  show "\<not> IsSeparator (R ! 1)"
    using c by (simp add: IsSeparator_iff BSL_def)
  show "\<not> IsSeparator (R ! 0)"
    using c by (auto simp: IsSeparator_iff BSL_def)
qed

lemma wrap_letter:
  assumes "l = 1 \<or> l = npos"
  shows "wrap (l + 2) = wrap (l + 1) + 1" "wrap (l + 3) = wrap (l + 1) + 2"
    "wrap (l + 1) \<noteq> npos" "wrap (l + 2) \<noteq> npos" "2 \<le> wrap (l + 3)"
    "wrap (l + 1) = (if l = 1 then 2 else 0)"
  using assms by (auto simp: wrap_def npos_def)

lemma strip_start_cases: "strip_start p = 1 \<or> strip_start p = 3"
  using FindDriveLetter_cases [of p] by (auto simp: strip_start_def wrap_def npos_def)

lemma strip_start_drive: "FindDriveLetter p = 1 \<Longrightarrow> strip_start p = 3"
  by (simp add: strip_start_def wrap_def)

lemma strip_start_no_drive: "FindDriveLetter p = npos \<Longrightarrow> strip_start p = 1"
  by (simp add: strip_start_def wrap_def npos_def)

lemma resize_take: "n \<le> length s \<Longrightarrow> resize s n = take n s"
  by (simp add: resize_def)

lemma trailing_separators_snoc:
  "trailing_separators (xs @ [x]) = (if IsSeparator x then Suc (trailing_separators xs) else 0)"
  by (simp add: trailing_separators_def)

lemma trailing_separators_le: "trailing_separators p \<le> length p"
  unfolding trailing_separators_def
  by (metis length_rev length_takeWhile_le)

lemma trailing_separators_none:
  "\<forall>c\<in>set p. \<not> IsSeparator c \<Longrightarrow> trailing_separators p = 0"
  by (cases p rule: rev_cases) (auto simp: trailing_separators_def)

lemma trailing_separators_all:
  "list_all IsSeparator (drop (length p - trailing_separators p) p)"
proof (induction p rule: rev_induct)
  case Nil
  show ?case by simp
next
  case (snoc x xs)
  show ?case
  proof (cases "IsSeparator x")
    case True
    have "length (xs @ [x]) - trailing_separators (xs @ [x]) = length xs - trailing_separators xs"
      using True by (simp add: trailing_separators_snoc)
    then show ?thesis using snoc True by simp
  next
    case False
    then show ?thesis by (simp add: trailing_separators_snoc)
  qed
qed

lemma trailing_separators_stop:
  "trailing_separators p < length p \<Longrightarrow>
   \<not> IsSeparator (p ! (length p - trailing_separators p - 1))"
proof (induction p rule: rev_induct)
  case Nil
  then show ?case by simp
next
  case (snoc x xs)
  show ?case
  proof (cases "IsSeparator x")
    case True
    with snoc.prems have less: "trailing_separators xs < length xs"
      by (simp add: trailing_separators_snoc)
    have "length (xs @ [x]) - trailing_separators (xs @ [x]) - 1 =
          length xs - trailing_separators xs - 1"
      using True by (simp add: trailing_separators_snoc)
    moreover have "length xs - trailing_separators xs - 1 < length xs"
      using less by simp
    ultimately show ?thesis
      using snoc.IH [OF less] by (simp add: nth_append)
  next
    case False
    then show ?thesis by (simp add: trailing_separators_snoc)
  qed
qed

section \<open>The loop of StripTrailingSeparators\<close>

text \<open>
  The loop removes the separators at the end of the path down to the start boundary. The
  one round that may leave a separator in place is the round at \<open>pos = start + 1\<close>,
  and only when it is the first round: then the path is the drive letter, if any,
  followed by exactly two separators, and it is returned as it is.
\<close>

lemma loop_stripped:
  "ls = length path + 1 \<Longrightarrow>
   StripTrailingSeparators_loop start path (length path) ls =
     take (max (min start (length path)) (length path - trailing_separators path)) path"
proof (induction path arbitrary: ls rule: rev_induct)
  case Nil
  show ?case by (simp add: StripTrailingSeparators_loop.simps)
next
  case (snoc x xs)
  show ?case
  proof (cases "length xs + 1 > start \<and> IsSeparator x")
    case True
    have "StripTrailingSeparators_loop start (xs @ [x]) (length (xs @ [x])) ls =
          StripTrailingSeparators_loop start xs (length xs) (length xs + 1)"
      using True snoc.prems
      by (subst StripTrailingSeparators_loop.simps) (auto simp: resize_def)
    also have "\<dots> = take (max (min start (length xs)) (length xs - trailing_separators xs)) xs"
      by (rule snoc.IH) simp
    also have "\<dots> = take (max (min start (length (xs @ [x])))
                        (length (xs @ [x]) - trailing_separators (xs @ [x]))) (xs @ [x])"
      using True trailing_separators_le [of xs]
      by (simp add: trailing_separators_snoc min_def max_def)
    finally show ?thesis .
  next
    case False
    then show ?thesis
      by (subst StripTrailingSeparators_loop.simps)
         (auto simp: min_def max_def trailing_separators_snoc)
  qed
qed

lemma StripTrailingSeparators_eq:
  "StripTrailingSeparators p =
     (if length p = strip_start p + 1 \<and> IsSeparator (p ! strip_start p) \<and>
         IsSeparator (p ! (strip_start p - 1))
      then p
      else take (max (min (strip_start p) (length p)) (length p - trailing_separators p)) p)"
  (is "_ = ?spec")
proof (cases p rule: rev_cases)
  case Nil
  then show ?thesis
    by (simp add: StripTrailingSeparators_def StripTrailingSeparators_loop.simps)
next
  case (snoc xs x)
  define start where "start = strip_start p"
  have start: "start = 1 \<or> start = 3"
    unfolding start_def by (rule strip_start_cases)
  have S: "StripTrailingSeparators p = StripTrailingSeparators_loop start p (length p) npos"
    by (simp add: StripTrailingSeparators_def start_def strip_start_def)
  have spec: "?spec =
      (if length p = start + 1 \<and> IsSeparator (p ! start) \<and> IsSeparator (p ! (start - 1))
       then p
       else take (max (min start (length p)) (length p - trailing_separators p)) p)"
    by (simp add: start_def)
  have lastp: "p ! (length p - 1) = x"
    using snoc by simp
  show ?thesis
  proof (cases "length p > start \<and> IsSeparator x")
    case False
    then have "StripTrailingSeparators p = p"
      unfolding S using lastp by (subst StripTrailingSeparators_loop.simps) auto
    moreover have "?spec = p"
      using False snoc start
      unfolding spec by (auto simp: trailing_separators_snoc)
    ultimately show ?thesis by simp
  next
    case True
    show ?thesis
    proof (cases "length p = start + 1 \<and> IsSeparator (p ! (start - 1))")
      case keep: True
      have "StripTrailingSeparators_loop start p (length p) npos =
            StripTrailingSeparators_loop start p start npos"
        using True keep start lastp
        by (subst StripTrailingSeparators_loop.simps) (auto simp: npos_def)
      also have "\<dots> = p"
        by (subst StripTrailingSeparators_loop.simps) simp
      finally have "StripTrailingSeparators p = p" using S by simp
      moreover have "?spec = p"
        using True keep lastp unfolding spec by auto
      ultimately show ?thesis by simp
    next
      case strip: False
      have "StripTrailingSeparators_loop start p (length p) npos =
            StripTrailingSeparators_loop start xs (length xs) (length xs + 1)"
        using True strip snoc
        by (subst StripTrailingSeparators_loop.simps) (auto simp: resize_def)
      also have "\<dots> = take (max (min start (length xs)) (length xs - trailing_separators xs)) xs"
        by (rule loop_stripped) simp
      also have "\<dots> = ?spec"
        using True strip snoc trailing_separators_le [of xs] unfolding spec
        by (auto simp: trailing_separators_snoc min_def max_def nth_append)
      finally show ?thesis using S by simp
    qed
  qed
qed

lemma Strip_keep:
  assumes "length p = strip_start p + 1 \<and> IsSeparator (p ! strip_start p) \<and>
           IsSeparator (p ! (strip_start p - 1))"
  shows "StripTrailingSeparators p = p"
  by (subst StripTrailingSeparators_eq) (rule if_P [OF assms])

lemma Strip_take:
  assumes "\<not> (length p = strip_start p + 1 \<and> IsSeparator (p ! strip_start p) \<and>
              IsSeparator (p ! (strip_start p - 1)))"
  shows "StripTrailingSeparators p =
         take (max (min (strip_start p) (length p)) (length p - trailing_separators p)) p"
  by (subst StripTrailingSeparators_eq) (rule if_not_P [OF assms])

lemma Strip_prefix:
  "\<exists>k. StripTrailingSeparators p = take k p \<and> min (strip_start p) (length p) \<le> k \<and>
       k \<le> length p \<and> list_all IsSeparator (drop k p)"
proof (cases "length p = strip_start p + 1 \<and> IsSeparator (p ! strip_start p) \<and>
              IsSeparator (p ! (strip_start p - 1))")
  case True
  then have "StripTrailingSeparators p = take (length p) p"
    by (simp add: Strip_keep)
  then show ?thesis by (intro exI [of _ "length p"]) simp
next
  case False
  define k where "k = max (min (strip_start p) (length p)) (length p - trailing_separators p)"
  have "StripTrailingSeparators p = take k p"
    unfolding k_def by (rule Strip_take [OF False])
  moreover have "min (strip_start p) (length p) \<le> k" "k \<le> length p"
    by (simp_all add: k_def)
  moreover have "list_all IsSeparator (drop k p)"
  proof -
    have "length p - trailing_separators p \<le> k" by (simp add: k_def)
    then have "set (drop k p) \<subseteq> set (drop (length p - trailing_separators p) p)"
      by (rule set_drop_subset_set_drop)
    then show ?thesis
      using trailing_separators_all [of p] by (auto simp: list_all_iff)
  qed
  ultimately show ?thesis by blast
qed

lemma Strip_no_trailing:
  assumes "strip_start p < length (StripTrailingSeparators p)"
    and "IsSeparator (last (StripTrailingSeparators p))"
  shows "StripTrailingSeparators p = p \<and> length p = strip_start p + 1 \<and>
         IsSeparator (p ! (strip_start p - 1))"
proof (cases "length p = strip_start p + 1 \<and> IsSeparator (p ! strip_start p) \<and>
              IsSeparator (p ! (strip_start p - 1))")
  case True
  then show ?thesis by (simp add: Strip_keep)
next
  case False
  define k where "k = max (min (strip_start p) (length p)) (length p - trailing_separators p)"
  have eq: "StripTrailingSeparators p = take k p"
    unfolding k_def by (rule Strip_take [OF False])
  have kn: "k \<le> length p" by (simp add: k_def)
  from assms(1) eq kn have "strip_start p < k" by simp
  then have k: "k = length p - trailing_separators p" and t: "trailing_separators p < length p"
    by (auto simp: k_def max_def min_def split: if_splits)
  have "take k p \<noteq> []"
    using \<open>strip_start p < k\<close> kn by auto
  then have "last (take k p) = p ! (k - 1)"
    using \<open>strip_start p < k\<close> kn by (simp add: last_conv_nth min_absorb2)
  then have "\<not> IsSeparator (last (StripTrailingSeparators p))"
    using trailing_separators_stop [OF t] eq k by simp
  with assms(2) show ?thesis by simp
qed

lemma Strip_subset: "set (StripTrailingSeparators p) \<subseteq> set p"
  using Strip_prefix [of p] by (auto dest: in_set_takeD)

lemma Strip_two:
  assumes "IsSeparator a" and "IsSeparator b"
  shows "StripTrailingSeparators [a, b] = [a, b]"
proof -
  have "strip_start [a, b] = 1"
    using assms(2) by (simp add: strip_start_no_drive separator_no_drive)
  then show ?thesis
    using assms by (subst Strip_keep) simp_all
qed

lemma Strip_three:
  assumes "IsSeparator a" and "IsSeparator b" and "IsSeparator c"
  shows "StripTrailingSeparators [a, b, c] = [a]"
proof -
  have "strip_start [a, b, c] = 1"
    using assms(2) by (simp add: strip_start_no_drive separator_no_drive)
  then show ?thesis
    using assms by (subst Strip_take) (simp_all add: trailing_separators_def)
qed

lemma Strip_drive_root:
  assumes "FindDriveLetter [d, e] = 1" and "IsSeparator a"
  shows "StripTrailingSeparators [d, e, a] = [d, e, a]"
proof -
  have "strip_start [d, e, a] = 3"
    using assms(1) by (simp add: strip_start_drive drive_prefix)
  then show ?thesis
    by (subst Strip_take) simp_all
qed

lemma Strip_drive_many:
  assumes "FindDriveLetter [d, e] = 1" and "IsSeparator a" and "IsSeparator b" and "IsSeparator c"
  shows "StripTrailingSeparators [d, e, a, b, c] = [d, e, a]"
proof -
  have "strip_start [d, e, a, b, c] = 3"
    using assms(1) by (simp add: strip_start_drive drive_prefix)
  moreover have "\<not> IsSeparator e"
    using drive_not_separator(2) [OF assms(1)] by simp
  ultimately show ?thesis
    using assms(2-4) by (subst Strip_take) (simp_all add: trailing_separators_def)
qed

lemma Strip_drive_two:
  assumes "FindDriveLetter [d, e] = 1" and "IsSeparator a" and "IsSeparator b"
  shows "StripTrailingSeparators [d, e, a, b] = [d, e, a, b]"
proof -
  have "strip_start [d, e, a, b] = 3"
    using assms(1) by (simp add: strip_start_drive drive_prefix)
  then show ?thesis
    using assms(2,3) by (subst Strip_keep) simp_all
qed

lemma Strip_keeps_leading_pair:
  assumes "IsSeparator a" and "IsSeparator b" and "\<not> list_all IsSeparator rest"
  shows "take 2 (StripTrailingSeparators (a # b # rest)) = [a, b]"
proof -
  obtain k where k: "StripTrailingSeparators (a # b # rest) = take k (a # b # rest)"
    and seps: "list_all IsSeparator (drop k (a # b # rest))"
    using Strip_prefix [of "a # b # rest"] by blast
  have "2 < k"
  proof (rule ccontr)
    assume "\<not> 2 < k"
    then have "set rest \<subseteq> set (drop k (a # b # rest))"
      using set_drop_subset_set_drop [of k 2 "a # b # rest"] by simp
    with seps assms(3) show False by (auto simp: list_all_iff)
  qed
  then show ?thesis by (simp add: k take_Cons')
qed

section \<open>The last separator of a path\<close>

lemma find_last_from_range:
  "find_last_from p cs n = npos \<or> (find_last_from p cs n < n \<and> p ! find_last_from p cs n \<in> set cs)"
  by (induction n) (auto simp: less_Suc_eq)

lemma find_last_from_none:
  "(\<forall>i<n. p ! i \<notin> set cs) \<Longrightarrow> find_last_from p cs n = npos"
  by (induction n) auto

lemma find_last_of_range:
  assumes "find_last_of p kSeparators (kSeparatorsLength - 1) \<noteq> npos"
  shows "find_last_of p kSeparators (kSeparatorsLength - 1) < length p \<and>
         IsSeparator (p ! find_last_of p kSeparators (kSeparatorsLength - 1))"
  using assms find_last_from_range [of p "take (kSeparatorsLength - 1) kSeparators" "length p"]
  unfolding find_last_of_def by (auto simp only: separator_set)

lemma find_last_of_none:
  "\<forall>c\<in>set p. \<not> IsSeparator c \<Longrightarrow> find_last_of p kSeparators (kSeparatorsLength - 1) = npos"
  unfolding find_last_of_def
  by (rule find_last_from_none) (auto simp only: separator_set dest: nth_mem)

lemma find_last_of_last:
  assumes "R \<noteq> []" and "IsSeparator (last R)"
  shows "find_last_of R kSeparators (kSeparatorsLength - 1) = length R - 1"
proof -
  obtain xs x where R: "R = xs @ [x]"
    using assms(1) by (cases R rule: rev_cases) auto
  with assms(2) have "x \<in> set (take (kSeparatorsLength - 1) kSeparators)"
    by (simp only: separator_set) simp
  then show ?thesis
    by (simp add: find_last_of_def R)
qed

section \<open>The branches of GetParent\<close>

text \<open>
  \<open>GetParent_steps\<close> names the intermediate values of \<^verbatim>\<open>GetParent\<close>, so that a
  concrete path is evaluated one step at a time.
\<close>

lemmas path_eval =
  StripTrailingSeparators_eq strip_start_def FindDriveLetter_def trailing_separators_def
  IsSeparator_iff L_def BSL_def npos_def wrap_def find_last_of_def kSeparators_def
  kSeparatorsLength_def resize_def kCurrentDirectory_def

lemma GetParent_steps:
  assumes "StripTrailingSeparators p0 = p"
    and "FindDriveLetter p = letter"
    and "find_last_of p kSeparators (kSeparatorsLength - 1) = last_separator"
    and "(if last_separator = npos then resize p (wrap (letter + 1))
          else if last_separator = wrap (letter + 1) then resize p (wrap (letter + 2))
          else if last_separator = wrap (letter + 2) \<and> IsSeparator (p ! wrap (letter + 1))
            then resize p (wrap (letter + 3))
          else if last_separator \<noteq> 0 then resize p last_separator
          else p) = q"
    and "StripTrailingSeparators q = r"
    and "(if length r = 0 then kCurrentDirectory else r) = res"
  shows "GetParent p0 = res"
  by (simp only: GetParent_def Let_def assms)

lemma GetParent_nonempty: "GetParent p \<noteq> []"
  by (simp add: GetParent_def Let_def kCurrentDirectory_def L_def)

lemma GetParent_subset: "set (GetParent p) \<subseteq> set p \<union> {0x2E}"
proof -
  define q where "q = StripTrailingSeparators p"
  define letter where "letter = FindDriveLetter q"
  define ls where "ls = find_last_of q kSeparators (kSeparatorsLength - 1)"
  define r where "r =
    (if ls = npos then resize q (wrap (letter + 1))
     else if ls = wrap (letter + 1) then resize q (wrap (letter + 2))
     else if ls = wrap (letter + 2) \<and> IsSeparator (q ! wrap (letter + 1))
       then resize q (wrap (letter + 3))
     else if ls \<noteq> 0 then resize q ls
     else q)"
  have G: "GetParent p =
      (if length (StripTrailingSeparators r) = 0 then kCurrentDirectory
       else StripTrailingSeparators r)"
    by (rule GetParent_steps [OF q_def [symmetric] letter_def [symmetric] ls_def [symmetric]
          r_def [symmetric] refl refl])
  have letter: "letter = 1 \<and> 2 \<le> length q \<or> letter = npos"
    using FindDriveLetter_cases [of q] FindDriveLetter_length [of q] by (auto simp: letter_def)
  have ls: "ls = npos \<or> ls < length q"
    using find_last_of_range [of q] by (auto simp: ls_def)
  have "\<exists>k. r = take k q"
  proof (cases "ls = npos")
    case True
    then have "r = resize q (wrap (letter + 1))" by (simp add: r_def)
    moreover have "wrap (letter + 1) \<le> length q"
      using letter by (auto simp: wrap_def npos_def)
    ultimately have "r = take (wrap (letter + 1)) q" by (simp add: resize_take)
    then show ?thesis by blast
  next
    case False
    with ls have less: "ls < length q" by simp
    consider (root) "ls = wrap (letter + 1)"
      | (alt) "ls \<noteq> wrap (letter + 1)" "ls = wrap (letter + 2)"
              "IsSeparator (q ! wrap (letter + 1))"
      | (base) "ls \<noteq> wrap (letter + 1)"
              "\<not> (ls = wrap (letter + 2) \<and> IsSeparator (q ! wrap (letter + 1)))" "ls \<noteq> 0"
      | (zero) "ls \<noteq> wrap (letter + 1)"
              "\<not> (ls = wrap (letter + 2) \<and> IsSeparator (q ! wrap (letter + 1)))" "ls = 0"
      by blast
    then show ?thesis
    proof cases
      case root
      have "r = resize q (wrap (letter + 2))"
        by (simp only: r_def False if_False) (simp only: root if_True simp_thms)
      moreover have "wrap (letter + 2) \<le> length q"
        using letter root less by (auto simp: wrap_def npos_def Suc_le_eq)
      ultimately have "r = take (wrap (letter + 2)) q" by (simp add: resize_take)
      then show ?thesis by blast
    next
      case alt
      have "r = resize q (wrap (letter + 3))"
        by (simp only: r_def False alt(1) if_False) (simp only: alt(2) [symmetric] alt(3) if_True simp_thms)
      moreover have "wrap (letter + 3) \<le> length q"
        using letter alt less by (auto simp: wrap_def npos_def Suc_le_eq)
      ultimately have "r = take (wrap (letter + 3)) q" by (simp add: resize_take)
      then show ?thesis by blast
    next
      case base
      have "r = resize q ls"
        by (simp only: r_def False base if_False simp_thms if_True)
      then have "r = take ls q" using less by (simp add: resize_take)
      then show ?thesis by blast
    next
      case zero
      have "r = q"
        by (simp only: r_def False zero(1,2) if_False) (simp add: zero(3))
      then have "r = take (length q) q" by simp
      then show ?thesis by blast
    qed
  qed
  then have "set r \<subseteq> set q" by (auto dest: in_set_takeD)
  then have "set (StripTrailingSeparators r) \<subseteq> set p"
    using Strip_subset [of r] Strip_subset [of p] by (auto simp: q_def)
  then show ?thesis
    unfolding G by (auto simp: kCurrentDirectory_def L_def)
qed

lemma GetParent_current_directory:
  assumes "FindDriveLetter path = npos" and "\<forall>c\<in>set path. \<not> IsSeparator c"
  shows "GetParent path = kCurrentDirectory"
proof -
  have "\<not> (length path = strip_start path + 1 \<and> IsSeparator (path ! strip_start path) \<and>
            IsSeparator (path ! (strip_start path - 1)))"
    using assms(2) by (auto dest: nth_mem)
  then have strip: "StripTrailingSeparators path = path"
    by (simp add: Strip_take trailing_separators_none [OF assms(2)])
  have strip_nil: "StripTrailingSeparators [] = []"
    using Strip_subset [of "[]"] by simp
  show ?thesis
    by (rule GetParent_steps [OF strip assms(1) find_last_of_none [OF assms(2)] refl refl])
       (simp add: wrap_def npos_def resize_def strip_nil)
qed

lemma GetParent_alternate:
  assumes ls: "find_last_of (StripTrailingSeparators p) kSeparators (kSeparatorsLength - 1) =
               wrap (FindDriveLetter (StripTrailingSeparators p) + 2)"
    and sep: "IsSeparator (StripTrailingSeparators p !
                wrap (FindDriveLetter (StripTrailingSeparators p) + 1))"
  shows "GetParent p =
         take (wrap (FindDriveLetter (StripTrailingSeparators p) + 3)) (StripTrailingSeparators p)"
    and "wrap (FindDriveLetter (StripTrailingSeparators p) + 3) \<le> length (StripTrailingSeparators p)"
    and "IsSeparator (StripTrailingSeparators p !
                wrap (FindDriveLetter (StripTrailingSeparators p) + 2))"
proof -
  define q where "q = StripTrailingSeparators p"
  define l where "l = FindDriveLetter q"
  define b where "b = wrap (l + 1)"
  have l: "l = 1 \<or> l = npos"
    unfolding l_def by (rule FindDriveLetter_cases)
  note w = wrap_letter [OF l, folded b_def]
  have ls': "find_last_of q kSeparators (kSeparatorsLength - 1) = b + 1"
    using ls w(1) by (simp add: q_def l_def)
  have sep': "IsSeparator (q ! b)"
    using sep by (simp add: q_def l_def b_def)
  have "find_last_of q kSeparators (kSeparatorsLength - 1) \<noteq> npos"
    using ls w(1,4) by (simp add: q_def l_def)
  from find_last_of_range [OF this] have len: "b + 1 < length q" and sep2: "IsSeparator (q ! (b + 1))"
    unfolding ls' by simp_all
  define r where "r = take (b + 2) q"
  have r_len: "length r = b + 2"
    using len by (simp add: r_def)
  have branch: "(if b + 1 = npos then resize q (wrap (l + 1))
          else if b + 1 = wrap (l + 1) then resize q (wrap (l + 2))
          else if b + 1 = wrap (l + 2) \<and> IsSeparator (q ! wrap (l + 1))
            then resize q (wrap (l + 3))
          else if b + 1 \<noteq> 0 then resize q (b + 1)
          else q) = r"
  proof -
    have e: "wrap (l + 1) = b" "wrap (l + 2) = b + 1" "wrap (l + 3) = b + 2"
      using w(1,2) by (simp_all add: b_def)
    have "b + 1 \<noteq> npos" using w(4) e(2) by simp
    then show ?thesis
      unfolding e using sep' len by (simp add: r_def resize_take)
  qed
  have "FindDriveLetter r = l"
    unfolding r_def l_def by (rule FindDriveLetter_take) simp
  then have start: "strip_start r = b + 1"
    using w(1) by (simp add: strip_start_def)
  have "StripTrailingSeparators r = r"
  proof (rule Strip_keep)
    show "length r = strip_start r + 1 \<and> IsSeparator (r ! strip_start r) \<and>
          IsSeparator (r ! (strip_start r - 1))"
      using sep' sep2 by (simp add: start r_len) (simp add: r_def)
  qed
  moreover have "r \<noteq> []" using r_len by auto
  ultimately have fin: "(if length (StripTrailingSeparators r) = 0 then kCurrentDirectory
                    else StripTrailingSeparators r) = r"
    by simp
  have "GetParent p = r"
    by (rule GetParent_steps [OF q_def [symmetric] l_def [symmetric] ls' branch refl fin])
  then show "GetParent p =
         take (wrap (FindDriveLetter (StripTrailingSeparators p) + 3)) (StripTrailingSeparators p)"
    using w(2) by (simp add: r_def q_def l_def)
  show "wrap (FindDriveLetter (StripTrailingSeparators p) + 3) \<le> length (StripTrailingSeparators p)"
    using w(2) len by (simp add: q_def [symmetric] l_def [symmetric])
  show "IsSeparator (StripTrailingSeparators p !
                wrap (FindDriveLetter (StripTrailingSeparators p) + 2))"
    using w(1) sep2 by (simp add: q_def [symmetric] l_def [symmetric])
qed

lemma root_path_parent:
  assumes "root_path R"
  shows "GetParent R = R"
proof -
  define l where "l = FindDriveLetter R"
  define b where "b = wrap (l + 1)"
  have l: "l = 1 \<or> l = npos"
    unfolding l_def by (rule FindDriveLetter_cases)
  note w = wrap_letter [OF l, folded b_def]
  have e: "wrap (l + 1) = b" "wrap (l + 2) = b + 1" "wrap (l + 3) = b + 2"
    using w(1,2) by (simp_all add: b_def)
  have be: "b = (if FindDriveLetter R = 1 then 2 else 0)"
    using w(6) by (simp add: l_def)
  have bl: "b \<le> length R"
    using FindDriveLetter_length [of R] by (auto simp: be)
  from assms have rest: "length (drop b R) \<le> 2" "list_all IsSeparator (drop b R)" "R \<noteq> []"
    by (simp_all add: root_path_def Let_def be)
  have seps: "IsSeparator (R ! i)" if "b \<le> i" "i < length R" for i
  proof -
    have "R ! i = drop b R ! (i - b)" using that bl by simp
    moreover have "i - b < length (drop b R)" using that by simp
    ultimately show ?thesis using rest(2) by (simp add: list_all_length)
  qed
  have start: "strip_start R = b + 1"
    by (simp only: strip_start_def l_def [symmetric] e)
  have len: "length R = b \<or> length R = b + 1 \<or> length R = b + 2"
    using rest(1) bl by auto
  have strip: "StripTrailingSeparators R = R"
  proof (cases "length R = b + 2")
    case True
    show ?thesis
      by (rule Strip_keep) (use True seps in \<open>simp add: start\<close>)
  next
    case False
    then have "\<not> (length R = strip_start R + 1 \<and> IsSeparator (R ! strip_start R) \<and>
            IsSeparator (R ! (strip_start R - 1)))"
      by (simp add: start)
    from Strip_take [OF this] show ?thesis
      using False len by (auto simp: start)
  qed
  have lastsep: "IsSeparator (last R)" if "b < length R"
    using that rest(3) seps [of "length R - 1"] by (simp add: last_conv_nth)
  have branch: "(if find_last_of R kSeparators (kSeparatorsLength - 1) = npos
            then resize R (wrap (l + 1))
          else if find_last_of R kSeparators (kSeparatorsLength - 1) = wrap (l + 1)
            then resize R (wrap (l + 2))
          else if find_last_of R kSeparators (kSeparatorsLength - 1) = wrap (l + 2) \<and>
                  IsSeparator (R ! wrap (l + 1))
            then resize R (wrap (l + 3))
          else if find_last_of R kSeparators (kSeparatorsLength - 1) \<noteq> 0
            then resize R (find_last_of R kSeparators (kSeparatorsLength - 1))
          else R) = R"
  proof -
    consider (drive) "length R = b" | (one) "length R = b + 1" | (two) "length R = b + 2"
      using len by blast
    then show ?thesis
    proof cases
      case drive
      with rest(3) have "FindDriveLetter R = 1" "length R = 2"
        by (auto simp: be split: if_splits)
      then have "\<forall>c\<in>set R. \<not> IsSeparator c"
        using drive_not_separator [of R]
        by (auto simp: in_set_conv_nth less_Suc_eq numeral_2_eq_2)
      then have "find_last_of R kSeparators (kSeparatorsLength - 1) = npos"
        by (rule find_last_of_none)
      then show ?thesis
        unfolding e using drive by (simp add: resize_def)
    next
      case one
      then have "find_last_of R kSeparators (kSeparatorsLength - 1) = b"
        using find_last_of_last [OF rest(3) lastsep] by simp
      then show ?thesis
        unfolding e using one w(3) by (simp add: resize_def b_def [symmetric])
    next
      case two
      then have "find_last_of R kSeparators (kSeparatorsLength - 1) = b + 1"
        using find_last_of_last [OF rest(3) lastsep] by simp
      moreover have "b + 1 \<noteq> npos" using w(4) e(2) by simp
      ultimately show ?thesis
        unfolding e using two seps [of b] by (simp add: resize_def)
    qed
  qed
  have fin: "(if length (StripTrailingSeparators R) = 0 then kCurrentDirectory
              else StripTrailingSeparators R) = R"
    using strip rest(3) by simp
  show ?thesis
    by (rule GetParent_steps [OF strip l_def [symmetric] refl branch refl fin])
qed

section \<open>Strings without NUL\<close>

lemma c_str_id: "nul_free s \<Longrightarrow> c_str s = s"
  by (auto simp: nul_free_def c_str_def)

lemma nul_free_c_str: "nul_free (c_str s)"
  by (auto simp: nul_free_def c_str_def dest: set_takeWhileD)


lemma nul_free_Strip: "nul_free p \<Longrightarrow> nul_free (StripTrailingSeparators p)"
  using Strip_subset [of p] by (auto simp: nul_free_def)

lemma nul_free_GetParent: "nul_free p \<Longrightarrow> nul_free (GetParent p)"
  using GetParent_subset [of p] by (auto simp: nul_free_def)

section \<open>The calls of the loader\<close>

lemma invoke_calls: "calls (snd (invoke c f s)) = calls s @ [c]"
  by (simp add: invoke_def split: prod.splits)

lemma invoke_result: "fst (invoke c f s) = fst (f (os s))"
  by (simp add: invoke_def split: prod.splits)

lemma invoke_os: "os (snd (invoke c f s)) = snd (f (os s))"
  by (simp add: invoke_def split: prod.splits)

lemma SetCurrentDirectory_calls:
  "calls (snd (SetCurrentDirectory api d s)) = calls s @ [SetCurrentDirectory_call (c_str d)]"
  by (simp add: SetCurrentDirectory_def invoke_def split: prod.splits)

lemma GetCurrentDirectory_nul_free:
  "GetCurrentDirectory api dir s = (True, cur) \<Longrightarrow> nul_free cur"
  by (auto simp: GetCurrentDirectory_def Let_def nul_free_Strip nul_free_c_str
      split: prod.splits if_splits)

lemma LoadNativeLibraryHelper_captured:
  assumes "GetCurrentDirectory api [] s = (True, cur)"
  shows "LoadNativeLibraryHelper api path load s =
     (let s1 = snd (SetCurrentDirectory api (GetParent path) s);
          r = invoke (LoadLibrary_call (c_str path)) (load (c_str path)) s1
      in (fst r, snd (SetCurrentDirectory api cur (snd r))))"
  using assms GetParent_nonempty [of path]
  by (simp add: LoadNativeLibraryHelper_def Let_def split: prod.splits)

lemma LoadNativeLibraryHelper_not_captured:
  assumes "\<not> fst (GetCurrentDirectory api [] s)"
  shows "LoadNativeLibraryHelper api path load s =
         invoke (LoadLibrary_call (c_str path)) (load (c_str path)) s"
proof -
  obtain cur where "GetCurrentDirectory api [] s = (False, cur)"
    using assms by (cases "GetCurrentDirectory api [] s") auto
  then show ?thesis
    by (simp add: LoadNativeLibraryHelper_def Let_def split: prod.splits)
qed

lemma LoadNativeLibraryHelper_calls:
  assumes "GetCurrentDirectory api [] s = (True, cur)"
  shows "calls (snd (LoadNativeLibraryHelper api path load s)) =
         calls s @ [SetCurrentDirectory_call (c_str (GetParent path)),
                    LoadLibrary_call (c_str path), SetCurrentDirectory_call cur]"
  using GetCurrentDirectory_nul_free [OF assms]
  by (simp add: LoadNativeLibraryHelper_captured [OF assms] Let_def SetCurrentDirectory_calls
      invoke_calls c_str_id)

lemma LoadNativeLibraryHelper_result:
  assumes "GetCurrentDirectory api [] s = (True, cur)"
  shows "fst (LoadNativeLibraryHelper api path load s) =
         fst (load (c_str path) (os (snd (SetCurrentDirectory api (GetParent path) s))))"
  by (simp add: LoadNativeLibraryHelper_captured [OF assms] Let_def invoke_result)

lemma UnloadNativeLibrary_nullptr: "UnloadNativeLibrary api nullptr s = s"
  by (simp add: UnloadNativeLibrary_def)

lemmas mock_eval =
  mock_api_def started_in_def GetCurrentDirectory_def MAX_PATH_def c_str_def nullptr_def
  nul_free_def A_def

section \<open>Claim C1: Reset on an instance constructed from a well-known name\<close>

text \<open>
  C1, as amended. \<^verbatim>\<open>Reset(someHandle)\<close> on an instance constructed from a well-known
  name unloads nothing and stores \<open>someHandle\<close> in \<^verbatim>\<open>library_\<close>, but it keeps
  \<^verbatim>\<open>library_name_\<close>. Afterwards \<^verbatim>\<open>is_valid()\<close> holds iff \<open>someHandle\<close> is not null
  or the name is resident; with a non-empty name \<^verbatim>\<open>GetFunctionPointer\<close> of a valid
  instance still resolves through the resident module of that name, never through
  \<open>someHandle\<close>. Only when the name is empty do both depend on \<open>someHandle\<close> alone.
\<close>

theorem Reset_keeps_the_name:
  "Reset api (DynamicLibrary_from_name filename) someHandle s =
     (\<lparr>member_library_name = c_str filename, member_library = someHandle\<rparr>, s) \<and>
   is_valid api (fst (Reset api (DynamicLibrary_from_name filename) someHandle s)) t =
     (someHandle \<noteq> nullptr \<or> WellKnownLibrary api (c_str filename) t) \<and>
   (c_str filename \<noteq> [] \<longrightarrow>
      GetFunctionPointer api (fst (Reset api (DynamicLibrary_from_name filename) someHandle s))
          function_name t =
        (if someHandle \<noteq> nullptr \<or> WellKnownLibrary api (c_str filename) t
         then GetFunctionPointerFromNativeLibrary_name api (c_str filename) function_name t
         else nullptr)) \<and>
   (c_str filename = [] \<longrightarrow>
      is_valid api (fst (Reset api (DynamicLibrary_from_name filename) someHandle s)) t =
        (someHandle \<noteq> nullptr) \<and>
      GetFunctionPointer api (fst (Reset api (DynamicLibrary_from_name filename) someHandle s))
          function_name t =
        (if someHandle \<noteq> nullptr
         then GetFunctionPointerFromNativeLibrary api someHandle function_name t
         else nullptr))"
  by (simp add: Reset_def DynamicLibrary_from_name_def UnloadNativeLibrary_nullptr is_valid_def
      GetFunctionPointer_def WellKnownLibrary_def)

text \<open>
  The theorem at the name \<^verbatim>\<open>user32\<close>, resident with handle 5 and exporting \<^verbatim>\<open>f\<close> at
  42, after \<^verbatim>\<open>Reset(7)\<close>; and at the empty name after \<^verbatim>\<open>Reset(nullptr)\<close>.
\<close>

theorem Reset_keeps_the_name_witness:
  "c_str (L ''user32'') \<noteq> [] \<and>
   is_valid (mock_api (\<lambda>p. nullptr) (\<lambda>n. if n = L ''user32'' then 5 else nullptr)
       (\<lambda>h n. if h = 5 \<and> n = A ''f'' then 42 else nullptr))
     (fst (Reset (mock_api (\<lambda>p. nullptr) (\<lambda>n. if n = L ''user32'' then 5 else nullptr)
             (\<lambda>h n. if h = 5 \<and> n = A ''f'' then 42 else nullptr))
        (DynamicLibrary_from_name (L ''user32'')) 7 (started_in []))) (started_in []) \<and>
   GetFunctionPointer (mock_api (\<lambda>p. nullptr) (\<lambda>n. if n = L ''user32'' then 5 else nullptr)
       (\<lambda>h n. if h = 5 \<and> n = A ''f'' then 42 else nullptr))
     (fst (Reset (mock_api (\<lambda>p. nullptr) (\<lambda>n. if n = L ''user32'' then 5 else nullptr)
             (\<lambda>h n. if h = 5 \<and> n = A ''f'' then 42 else nullptr))
        (DynamicLibrary_from_name (L ''user32'')) 7 (started_in []))) (Some (A ''f''))
     (started_in []) = 42 \<and>
   c_str ([] :: wstring) = [] \<and>
   \<not> is_valid (mock_api (\<lambda>p. nullptr) (\<lambda>n. if n = L ''user32'' then 5 else nullptr)
       (\<lambda>h n. if h = 5 \<and> n = A ''f'' then 42 else nullptr))
     (fst (Reset (mock_api (\<lambda>p. nullptr) (\<lambda>n. if n = L ''user32'' then 5 else nullptr)
             (\<lambda>h n. if h = 5 \<and> n = A ''f'' then 42 else nullptr))
        (DynamicLibrary_from_name []) nullptr (started_in []))) (started_in [])"
  using Reset_keeps_the_name [of
      "mock_api (\<lambda>p. nullptr) (\<lambda>n. if n = L ''user32'' then 5 else nullptr)
         (\<lambda>h n. if h = 5 \<and> n = A ''f'' then 42 else nullptr)"
      "L ''user32''" 7 "started_in []" "started_in []" "Some (A ''f'')"]
    Reset_keeps_the_name [of
      "mock_api (\<lambda>p. nullptr) (\<lambda>n. if n = L ''user32'' then 5 else nullptr)
         (\<lambda>h n. if h = 5 \<and> n = A ''f'' then 42 else nullptr)"
      "[]" nullptr "started_in []" "started_in []" "Some (A ''f'')"]
  by (simp add: Reset_def DynamicLibrary_from_name_def UnloadNativeLibrary_def is_valid_def
      GetFunctionPointer_def WellKnownLibrary_def
      GetFunctionPointerFromNativeLibrary_name_def GetFunctionPointerFromNativeLibrary_def
      mock_eval L_def)

text \<open>
  C1 as stated fails. After \<^verbatim>\<open>Reset(nullptr)\<close> an instance named \<^verbatim>\<open>user32\<close> is valid
  while \<^verbatim>\<open>user32\<close> is resident, although the handle is null. After \<^verbatim>\<open>Reset(7)\<close> an
  instance whose name is not resident resolves \<^verbatim>\<open>f\<close> to null, although the handle 7
  is not null and an instance that owns 7 resolves \<^verbatim>\<open>f\<close> to 42.
\<close>

theorem Reset_owned_mode_counterexample:
  "is_valid (mock_api (\<lambda>p. nullptr) (\<lambda>n. if n = L ''user32'' then 5 else nullptr)
       (\<lambda>h n. nullptr))
     (fst (Reset (mock_api (\<lambda>p. nullptr) (\<lambda>n. if n = L ''user32'' then 5 else nullptr)
             (\<lambda>h n. nullptr))
        (DynamicLibrary_from_name (L ''user32'')) nullptr (started_in []))) (started_in []) \<and>
   GetFunctionPointer (mock_api (\<lambda>p. nullptr) (\<lambda>n. nullptr)
       (\<lambda>h n. if h = 7 \<and> n = A ''f'' then 42 else nullptr))
     (fst (Reset (mock_api (\<lambda>p. nullptr) (\<lambda>n. nullptr)
             (\<lambda>h n. if h = 7 \<and> n = A ''f'' then 42 else nullptr))
        (DynamicLibrary_from_name (L ''gone'')) 7 (started_in []))) (Some (A ''f''))
     (started_in []) = nullptr \<and>
   GetFunctionPointer (mock_api (\<lambda>p. nullptr) (\<lambda>n. nullptr)
       (\<lambda>h n. if h = 7 \<and> n = A ''f'' then 42 else nullptr))
     (DynamicLibrary_from_handle 7) (Some (A ''f'')) (started_in []) = 42"
  by (simp add: Reset_def DynamicLibrary_from_name_def DynamicLibrary_from_handle_def
      UnloadNativeLibrary_def is_valid_def GetFunctionPointer_def WellKnownLibrary_def
      GetFunctionPointerFromNativeLibrary_name_def GetFunctionPointerFromNativeLibrary_def
      mock_eval L_def)

section \<open>Claim C2: parents of drive-letter paths and of roots\<close>

text \<open>
  C2. \<^verbatim>\<open>GetParent\<close> maps \<^verbatim>\<open>"C:\a\b"\<close> to \<^verbatim>\<open>"C:\a"\<close>, \<^verbatim>\<open>"C:\a"\<close> to \<^verbatim>\<open>"C:\"\<close>,
  \<^verbatim>\<open>"C:\"\<close> to itself and \<^verbatim>\<open>C:foo\<close> to \<^verbatim>\<open>C:\<close>; and every root path, that is an
  optional drive letter followed by at most two separators, is its own parent.
\<close>

theorem GetParent_drive_letter_and_roots:
  "GetParent (L ''C:'' @ [BSL] @ L ''a'' @ [BSL] @ L ''b'') = L ''C:'' @ [BSL] @ L ''a'' \<and>
   GetParent (L ''C:'' @ [BSL] @ L ''a'') = L ''C:'' @ [BSL] \<and>
   GetParent (L ''C:'' @ [BSL]) = L ''C:'' @ [BSL] \<and>
   GetParent (L ''C:foo'') = L ''C:'' \<and>
   (root_path R \<longrightarrow> GetParent R = R)"
proof (intro conjI impI)
  show "GetParent (L ''C:'' @ [BSL] @ L ''a'' @ [BSL] @ L ''b'') = L ''C:'' @ [BSL] @ L ''a''"
    by (rule GetParent_steps) (simp add: path_eval)+
  show "GetParent (L ''C:'' @ [BSL] @ L ''a'') = L ''C:'' @ [BSL]"
    by (rule GetParent_steps) (simp add: path_eval)+
  show "GetParent (L ''C:'' @ [BSL]) = L ''C:'' @ [BSL]"
    by (rule GetParent_steps) (simp add: path_eval)+
  show "GetParent (L ''C:foo'') = L ''C:''"
    by (rule GetParent_steps) (simp add: path_eval)+
  show "GetParent R = R" if "root_path R"
    using that by (rule root_path_parent)
qed

text \<open>
  The roots \<^verbatim>\<open>"C:\"\<close>, \<^verbatim>\<open>"\\"\<close>, \<^verbatim>\<open>/\<close> and \<^verbatim>\<open>C:\<close> are their own parents.
\<close>

theorem GetParent_drive_letter_and_roots_witness:
  "root_path (L ''C:'' @ [BSL]) \<and> GetParent (L ''C:'' @ [BSL]) = L ''C:'' @ [BSL] \<and>
   root_path [BSL, BSL] \<and> GetParent [BSL, BSL] = [BSL, BSL] \<and>
   root_path (L ''/'') \<and> GetParent (L ''/'') = L ''/'' \<and>
   root_path (L ''C:'') \<and> GetParent (L ''C:'') = L ''C:''"
proof -
  have r: "root_path (L ''C:'' @ [BSL])" "root_path [BSL, BSL]" "root_path (L ''/'')"
    "root_path (L ''C:'')"
    by (simp_all add: root_path_def path_eval)
  show ?thesis
    using r GetParent_drive_letter_and_roots [of "L ''C:'' @ [BSL]"]
      GetParent_drive_letter_and_roots [of "[BSL, BSL]"]
      GetParent_drive_letter_and_roots [of "L ''/''"]
      GetParent_drive_letter_and_roots [of "L ''C:''"]
    by simp
qed

section \<open>Claim C3: the directory is redirected before the load and restored after it\<close>

text \<open>
  C3. When \<^verbatim>\<open>GetCurrentDirectory\<close> succeeds, \<^verbatim>\<open>LoadNativeLibraryHelper\<close> makes
  exactly three calls, in this order: it sets the current directory to
  \<^verbatim>\<open>GetParent(library_path)\<close>, calls the load function with \<^verbatim>\<open>library_path\<close> itself,
  and sets the current directory to the captured one. This holds for every load function
  and so whatever handle the load returns, which is the result. The path is a string
  without NUL, so that the C string the callee reads is the path. For
  \<^verbatim>\<open>"C:\plugins\foo.dll"\<close> the parent is \<^verbatim>\<open>"C:\plugins"\<close>.
\<close>

theorem load_redirects_and_restores:
  assumes "GetCurrentDirectory api [] s = (True, current_directory)"
    and "nul_free library_path"
  shows "calls (snd (LoadNativeLibraryHelper api library_path load_library_api s)) =
           calls s @ [SetCurrentDirectory_call (GetParent library_path),
                      LoadLibrary_call library_path,
                      SetCurrentDirectory_call current_directory] \<and>
         fst (LoadNativeLibraryHelper api library_path load_library_api s) =
           fst (load_library_api library_path
                  (os (snd (SetCurrentDirectory api (GetParent library_path) s)))) \<and>
         GetParent (L ''C:'' @ [BSL] @ L ''plugins'' @ [BSL] @ L ''foo.dll'') =
           L ''C:'' @ [BSL] @ L ''plugins''"
proof -
  have "GetParent (L ''C:'' @ [BSL] @ L ''plugins'' @ [BSL] @ L ''foo.dll'') =
        L ''C:'' @ [BSL] @ L ''plugins''"
    by (rule GetParent_steps) (simp add: path_eval)+
  then show ?thesis
    using LoadNativeLibraryHelper_calls [OF assms(1), of library_path load_library_api]
      LoadNativeLibraryHelper_result [OF assms(1), of library_path load_library_api]
      c_str_id [OF assms(2)] c_str_id [OF nul_free_GetParent [OF assms(2)]]
    by simp
qed

text \<open>
  A load of \<^verbatim>\<open>"C:\plugins\foo.dll"\<close> that fails, in a process started in \<^verbatim>\<open>"C:\work"\<close>.
\<close>

theorem load_redirects_and_restores_witness:
  "GetCurrentDirectory (mock_api (\<lambda>p. nullptr) (\<lambda>n. nullptr) (\<lambda>h n. nullptr)) []
     (started_in (L ''C:'' @ [BSL] @ L ''work'')) = (True, L ''C:'' @ [BSL] @ L ''work'') \<and>
   nul_free (L ''C:'' @ [BSL] @ L ''plugins'' @ [BSL] @ L ''foo.dll'') \<and>
   fst (LoadNativeLibraryHelper (mock_api (\<lambda>p. nullptr) (\<lambda>n. nullptr) (\<lambda>h n. nullptr))
     (L ''C:'' @ [BSL] @ L ''plugins'' @ [BSL] @ L ''foo.dll'')
     (LoadLibraryW (mock_api (\<lambda>p. nullptr) (\<lambda>n. nullptr) (\<lambda>h n. nullptr)))
     (started_in (L ''C:'' @ [BSL] @ L ''work''))) = nullptr \<and>
   calls (snd (LoadNativeLibraryHelper (mock_api (\<lambda>p. nullptr) (\<lambda>n. nullptr) (\<lambda>h n. nullptr))
     (L ''C:'' @ [BSL] @ L ''plugins'' @ [BSL] @ L ''foo.dll'')
     (LoadLibraryW (mock_api (\<lambda>p. nullptr) (\<lambda>n. nullptr) (\<lambda>h n. nullptr)))
     (started_in (L ''C:'' @ [BSL] @ L ''work'')))) =
   [SetCurrentDirectory_call (L ''C:'' @ [BSL] @ L ''plugins''),
    LoadLibrary_call (L ''C:'' @ [BSL] @ L ''plugins'' @ [BSL] @ L ''foo.dll''),
    SetCurrentDirectory_call (L ''C:'' @ [BSL] @ L ''work'')]"
proof -
  have a: "GetCurrentDirectory (mock_api (\<lambda>p. nullptr) (\<lambda>n. nullptr) (\<lambda>h n. nullptr)) []
     (started_in (L ''C:'' @ [BSL] @ L ''work'')) = (True, L ''C:'' @ [BSL] @ L ''work'')"
    by (simp add: mock_eval path_eval)
  have b: "nul_free (L ''C:'' @ [BSL] @ L ''plugins'' @ [BSL] @ L ''foo.dll'')"
    by (simp add: nul_free_def L_def BSL_def)
  show ?thesis
    using a b load_redirects_and_restores [OF a b,
        of "LoadLibraryW (mock_api (\<lambda>p. nullptr) (\<lambda>n. nullptr) (\<lambda>h n. nullptr))"]
    by (simp add: started_in_def) (simp add: mock_api_def)
qed

section \<open>Claim C4: when symbol resolution returns null\<close>




section \<open>Claim C5: Release hands the handle over without unloading it\<close>

text \<open>
  C5, as amended. \<^verbatim>\<open>Release\<close> returns \<^verbatim>\<open>library_\<close> and sets it to null; it is a
  function of the object alone and makes no call, and it keeps \<^verbatim>\<open>library_name_\<close>.
  Destroying the instance afterwards leaves the process as it is, so the released handle
  is not unloaded. After \<^verbatim>\<open>Release\<close> the instance is valid iff its library name is
  resident, so an instance without a library name is not valid. The result is null
  exactly when \<^verbatim>\<open>library_\<close> was null, as on an instance just constructed from a
  well-known name; after \<^verbatim>\<open>Reset(someHandle)\<close> on such an instance the result is
  \<open>someHandle\<close>.
\<close>

theorem Release_transfers_ownership:
  "fst (Release this) = member_library this \<and>
   member_library (snd (Release this)) = nullptr \<and>
   member_library_name (snd (Release this)) = member_library_name this \<and>
   DynamicLibrary_destroy api (snd (Release this)) s = s \<and>
   is_valid api (snd (Release this)) s = WellKnownLibrary api (member_library_name this) s \<and>
   (member_library_name this = [] \<longrightarrow> \<not> is_valid api (snd (Release this)) s) \<and>
   (fst (Release this) = nullptr) = (member_library this = nullptr) \<and>
   fst (Release (DynamicLibrary_from_name filename)) = nullptr \<and>
   fst (Release (fst (Reset api (DynamicLibrary_from_name filename) someHandle s))) = someHandle"
  by (simp add: Release_def DynamicLibrary_destroy_def UnloadNativeLibrary_nullptr is_valid_def
      WellKnownLibrary_def DynamicLibrary_from_name_def Reset_def)

text \<open>
  An instance that owns the handle 7: valid before, invalid after \<^verbatim>\<open>Release\<close>, which
  returns 7; its destruction then makes no call, where the destruction of the owner
  would have called \<^verbatim>\<open>FreeLibrary(7)\<close>. An instance named \<^verbatim>\<open>user32\<close> releases null,
  and 7 after \<^verbatim>\<open>Reset(7)\<close>.
\<close>

theorem Release_transfers_ownership_witness:
  "member_library_name (DynamicLibrary_from_handle 7) = [] \<and>
   is_valid (mock_api (\<lambda>p. nullptr) (\<lambda>n. nullptr) (\<lambda>h n. nullptr))
     (DynamicLibrary_from_handle 7) (started_in []) \<and>
   Release (DynamicLibrary_from_handle 7) = (7, DynamicLibrary_default) \<and>
   \<not> is_valid (mock_api (\<lambda>p. nullptr) (\<lambda>n. nullptr) (\<lambda>h n. nullptr))
     (snd (Release (DynamicLibrary_from_handle 7))) (started_in []) \<and>
   calls (DynamicLibrary_destroy (mock_api (\<lambda>p. nullptr) (\<lambda>n. nullptr) (\<lambda>h n. nullptr))
     (snd (Release (DynamicLibrary_from_handle 7))) (started_in [])) = [] \<and>
   calls (DynamicLibrary_destroy (mock_api (\<lambda>p. nullptr) (\<lambda>n. nullptr) (\<lambda>h n. nullptr))
     (DynamicLibrary_from_handle 7) (started_in [])) = [FreeLibrary_call 7] \<and>
   fst (Release (DynamicLibrary_from_name (L ''user32''))) = nullptr \<and>
   fst (Release (fst (Reset (mock_api (\<lambda>p. nullptr) (\<lambda>n. nullptr) (\<lambda>h n. nullptr))
     (DynamicLibrary_from_name (L ''user32'')) 7 (started_in [])))) = 7"
  using Release_transfers_ownership [of "DynamicLibrary_from_handle 7"
      "mock_api (\<lambda>p. nullptr) (\<lambda>n. nullptr) (\<lambda>h n. nullptr)" "started_in []"
      "L ''user32''" 7]
  by (simp add: DynamicLibrary_from_handle_def DynamicLibrary_default_def Release_def
      is_valid_def DynamicLibrary_destroy_def UnloadNativeLibrary_def invoke_def mock_eval
      WellKnownLibrary_def)

text \<open>
  C5 as stated fails. An instance constructed from the resident name \<^verbatim>\<open>user32\<close> owns
  the handle 7 after \<^verbatim>\<open>Reset(7)\<close>: its destruction would call \<^verbatim>\<open>FreeLibrary(7)\<close>. Its
  \<^verbatim>\<open>Release\<close> returns 7, not null, and the instance is still valid afterwards.
\<close>

theorem Release_after_Reset_counterexample:
  "fst (Release (fst (Reset
      (mock_api (\<lambda>p. nullptr) (\<lambda>n. if n = L ''user32'' then 5 else nullptr) (\<lambda>h n. nullptr))
      (DynamicLibrary_from_name (L ''user32'')) 7 (started_in [])))) = 7 \<and>
   (7 :: HMODULE) \<noteq> nullptr \<and>
   is_valid (mock_api (\<lambda>p. nullptr) (\<lambda>n. if n = L ''user32'' then 5 else nullptr) (\<lambda>h n. nullptr))
     (snd (Release (fst (Reset
        (mock_api (\<lambda>p. nullptr) (\<lambda>n. if n = L ''user32'' then 5 else nullptr) (\<lambda>h n. nullptr))
        (DynamicLibrary_from_name (L ''user32'')) 7 (started_in [])))))
     (started_in []) \<and>
   calls (DynamicLibrary_destroy
     (mock_api (\<lambda>p. nullptr) (\<lambda>n. if n = L ''user32'' then 5 else nullptr) (\<lambda>h n. nullptr))
     (fst (Reset
        (mock_api (\<lambda>p. nullptr) (\<lambda>n. if n = L ''user32'' then 5 else nullptr) (\<lambda>h n. nullptr))
        (DynamicLibrary_from_name (L ''user32'')) 7 (started_in [])))
     (started_in [])) = [FreeLibrary_call 7]"
  by (simp add: Release_def Reset_def DynamicLibrary_from_name_def DynamicLibrary_destroy_def
      UnloadNativeLibrary_def invoke_def is_valid_def WellKnownLibrary_def mock_eval L_def)

section \<open>Claim C6: StripTrailingSeparators\<close>

text \<open>
  C6, as amended. \<^verbatim>\<open>StripTrailingSeparators\<close> returns a prefix of the path that keeps
  at least the characters before the start boundary, and what it removes are separators
  only. A path that is the drive letter, if any, followed by exactly two separators is
  returned unchanged: \<^verbatim>\<open>"\\"\<close> and \<^verbatim>\<open>"C:\\"\<close> both keep their two separators. From
  every other path all the separators at the end that lie beyond the start boundary are
  removed: two leading separators in front of other content are kept, three separators
  collapse to one, and a single separator after a drive letter is kept, as it is when
  three or more follow the drive letter. \<^verbatim>\<open>"C:\a\b\\"\<close> becomes \<^verbatim>\<open>"C:\a\b"\<close>.
\<close>

theorem StripTrailingSeparators_removes_trailing:
  "(\<exists>k. StripTrailingSeparators p = take k p \<and> min (strip_start p) (length p) \<le> k \<and>
        k \<le> length p \<and> list_all IsSeparator (drop k p)) \<and>
   (strip_start p < length (StripTrailingSeparators p) \<and>
    IsSeparator (last (StripTrailingSeparators p)) \<longrightarrow>
      StripTrailingSeparators p = p \<and> length p = strip_start p + 1 \<and>
      IsSeparator (p ! (strip_start p - 1))) \<and>
   (IsSeparator a \<and> IsSeparator b \<longrightarrow> StripTrailingSeparators [a, b] = [a, b]) \<and>
   (IsSeparator a \<and> IsSeparator b \<and> \<not> list_all IsSeparator rest \<longrightarrow>
      take 2 (StripTrailingSeparators (a # b # rest)) = [a, b]) \<and>
   (IsSeparator a \<and> IsSeparator b \<and> IsSeparator c \<longrightarrow>
      StripTrailingSeparators [a, b, c] = [a]) \<and>
   (FindDriveLetter [d, e] = 1 \<and> IsSeparator a \<longrightarrow>
      StripTrailingSeparators [d, e, a] = [d, e, a]) \<and>
   (FindDriveLetter [d, e] = 1 \<and> IsSeparator a \<and> IsSeparator b \<and> IsSeparator c \<longrightarrow>
      StripTrailingSeparators [d, e, a, b, c] = [d, e, a]) \<and>
   StripTrailingSeparators (L ''C:'' @ [BSL] @ L ''a'' @ [BSL] @ L ''b'' @ [BSL, BSL]) =
     L ''C:'' @ [BSL] @ L ''a'' @ [BSL] @ L ''b'' \<and>
   StripTrailingSeparators p =
     (if length p = strip_start p + 1 \<and> IsSeparator (p ! strip_start p) \<and>
         IsSeparator (p ! (strip_start p - 1))
      then p
      else take (max (min (strip_start p) (length p)) (length p - trailing_separators p)) p) \<and>
   (FindDriveLetter [d, e] = 1 \<and> IsSeparator a \<and> IsSeparator b \<longrightarrow>
      StripTrailingSeparators [d, e, a, b] = [d, e, a, b])"
proof (intro conjI impI)
  show "\<exists>k. StripTrailingSeparators p = take k p \<and> min (strip_start p) (length p) \<le> k \<and>
        k \<le> length p \<and> list_all IsSeparator (drop k p)"
    by (rule Strip_prefix)
  show "StripTrailingSeparators (L ''C:'' @ [BSL] @ L ''a'' @ [BSL] @ L ''b'' @ [BSL, BSL]) =
     L ''C:'' @ [BSL] @ L ''a'' @ [BSL] @ L ''b''"
    by (simp add: path_eval)
next
  assume h: "strip_start p < length (StripTrailingSeparators p) \<and>
    IsSeparator (last (StripTrailingSeparators p))"
  note k = Strip_no_trailing [OF conjunct1 [OF h] conjunct2 [OF h]]
  show "StripTrailingSeparators p = p" "length p = strip_start p + 1"
    "IsSeparator (p ! (strip_start p - 1))"
    using k by simp_all
next
  assume "IsSeparator a \<and> IsSeparator b"
  then show "StripTrailingSeparators [a, b] = [a, b]" by (simp add: Strip_two)
next
  assume "IsSeparator a \<and> IsSeparator b \<and> \<not> list_all IsSeparator rest"
  then show "take 2 (StripTrailingSeparators (a # b # rest)) = [a, b]"
    by (simp add: Strip_keeps_leading_pair)
next
  assume "IsSeparator a \<and> IsSeparator b \<and> IsSeparator c"
  then show "StripTrailingSeparators [a, b, c] = [a]" by (simp add: Strip_three)
next
  assume "FindDriveLetter [d, e] = 1 \<and> IsSeparator a"
  then show "StripTrailingSeparators [d, e, a] = [d, e, a]" by (simp add: Strip_drive_root)
next
  assume "FindDriveLetter [d, e] = 1 \<and> IsSeparator a \<and> IsSeparator b \<and> IsSeparator c"
  then show "StripTrailingSeparators [d, e, a, b, c] = [d, e, a]"
    by (simp add: Strip_drive_many)
next
  show "StripTrailingSeparators p =
     (if length p = strip_start p + 1 \<and> IsSeparator (p ! strip_start p) \<and>
         IsSeparator (p ! (strip_start p - 1))
      then p
      else take (max (min (strip_start p) (length p)) (length p - trailing_separators p)) p)"
    by (rule StripTrailingSeparators_eq)
next
  assume "FindDriveLetter [d, e] = 1 \<and> IsSeparator a \<and> IsSeparator b"
  then show "StripTrailingSeparators [d, e, a, b] = [d, e, a, b]"
    by (simp add: Strip_drive_two)
qed

text \<open>
  The theorem at the paths \<^verbatim>\<open>"\\"\<close>, \<^verbatim>\<open>"\\/"\<close>, \<^verbatim>\<open>"\\server\"\<close>, \<^verbatim>\<open>"C:\"\<close>,
  \<^verbatim>\<open>"C:\\/"\<close> and \<^verbatim>\<open>"C:\\"\<close>.
\<close>

theorem StripTrailingSeparators_removes_trailing_witness:
  "IsSeparator BSL \<and> IsSeparator 0x2F \<and> FindDriveLetter [0x43, 0x3A] = 1 \<and>
   \<not> list_all IsSeparator (L ''server'' @ [BSL]) \<and>
   strip_start [BSL, BSL] < length (StripTrailingSeparators [BSL, BSL]) \<and>
   IsSeparator (last (StripTrailingSeparators [BSL, BSL])) \<and>
   StripTrailingSeparators [BSL, BSL] = [BSL, BSL] \<and>
   StripTrailingSeparators [BSL, BSL, 0x2F] = [BSL] \<and>
   take 2 (StripTrailingSeparators (BSL # BSL # L ''server'' @ [BSL])) = [BSL, BSL] \<and>
   StripTrailingSeparators [0x43, 0x3A, BSL] = [0x43, 0x3A, BSL] \<and>
   StripTrailingSeparators [0x43, 0x3A, BSL, BSL, 0x2F] = [0x43, 0x3A, BSL] \<and>
   StripTrailingSeparators [0x43, 0x3A, BSL, BSL] = [0x43, 0x3A, BSL, BSL]"
proof -
  have a: "IsSeparator BSL" "IsSeparator 0x2F"
    by (simp_all add: IsSeparator_iff)
  have b: "FindDriveLetter [0x43, 0x3A] = 1"
    by (simp add: FindDriveLetter_def)
  have c: "\<not> list_all IsSeparator (L ''server'' @ [BSL])"
    by (simp add: IsSeparator_iff L_def BSL_def)
  note T = StripTrailingSeparators_removes_trailing [where p = "[BSL, BSL]" and a = BSL
      and b = BSL and c = "0x2F" and rest = "L ''server'' @ [BSL]" and d = "0x43" and e = "0x3A"]
  note T3 = T [THEN conjunct2, THEN conjunct2, THEN conjunct1]
  note T4 = T [THEN conjunct2, THEN conjunct2, THEN conjunct2, THEN conjunct1]
  note T5 = T [THEN conjunct2, THEN conjunct2, THEN conjunct2, THEN conjunct2, THEN conjunct1]
  note T6 = T [THEN conjunct2, THEN conjunct2, THEN conjunct2, THEN conjunct2, THEN conjunct2,
      THEN conjunct1]
  note T7 = T [THEN conjunct2, THEN conjunct2, THEN conjunct2, THEN conjunct2, THEN conjunct2,
      THEN conjunct2, THEN conjunct1]
  note T10 = T [THEN conjunct2, THEN conjunct2, THEN conjunct2, THEN conjunct2, THEN conjunct2,
      THEN conjunct2, THEN conjunct2, THEN conjunct2, THEN conjunct2]
  have r10: "StripTrailingSeparators [0x43, 0x3A, BSL, BSL] = [0x43, 0x3A, BSL, BSL]"
    using T10 a(1) b by blast
  have r3: "StripTrailingSeparators [BSL, BSL] = [BSL, BSL]"
    using T3 a(1) by blast
  have r4: "take 2 (StripTrailingSeparators (BSL # BSL # L ''server'' @ [BSL])) = [BSL, BSL]"
    using T4 a(1) c by blast
  have r5: "StripTrailingSeparators [BSL, BSL, 0x2F] = [BSL]"
    using T5 a by blast
  have r6: "StripTrailingSeparators [0x43, 0x3A, BSL] = [0x43, 0x3A, BSL]"
    using T6 a(1) b by blast
  have r7: "StripTrailingSeparators [0x43, 0x3A, BSL, BSL, 0x2F] = [0x43, 0x3A, BSL]"
    using T7 a b by blast
  have d: "strip_start [BSL, BSL] < length (StripTrailingSeparators [BSL, BSL])"
    "IsSeparator (last (StripTrailingSeparators [BSL, BSL]))"
    unfolding r3 by (simp_all add: strip_start_no_drive separator_no_drive a)
  show ?thesis
    by (intro conjI a b c d r3 r4 r5 r6 r7 r10)
qed

text \<open>
  C6 as stated fails. \<^verbatim>\<open>"C:\\"\<close>, a drive letter followed by two separators, is
  returned whole: a separator remains at its end, and the result is not the drive letter
  with its single root separator.
\<close>

theorem StripTrailingSeparators_drive_pair_counterexample:
  "FindDriveLetter [0x43, 0x3A, BSL, BSL] = 1 \<and> IsSeparator BSL \<and>
   StripTrailingSeparators [0x43, 0x3A, BSL, BSL] = [0x43, 0x3A, BSL, BSL] \<and>
   IsSeparator (last (StripTrailingSeparators [0x43, 0x3A, BSL, BSL])) \<and>
   StripTrailingSeparators [0x43, 0x3A, BSL, BSL] \<noteq> [0x43, 0x3A, BSL]"
proof -
  have a: "IsSeparator BSL" by (simp add: IsSeparator_iff)
  have b: "FindDriveLetter [0x43, 0x3A] = 1" by (simp add: FindDriveLetter_def)
  have c: "FindDriveLetter [0x43, 0x3A, BSL, BSL] = 1" by (simp add: FindDriveLetter_def)
  have s: "StripTrailingSeparators [0x43, 0x3A, BSL, BSL] = [0x43, 0x3A, BSL, BSL]"
    by (rule Strip_drive_two [OF b a a])
  show ?thesis
    unfolding s using a c by simp
qed

section \<open>Claim C7: the alternate root keeps its two separators\<close>

text \<open>
  C7. The parent of \<^verbatim>\<open>"\\server\share"\<close> is \<^verbatim>\<open>"\\server"\<close>, and the parent of that is
  \<^verbatim>\<open>"\\"\<close>. In general, when the last separator of the stripped path is at
  \<open>letter + 2\<close> and the character at \<open>letter + 1\<close> is a separator too, the parent is
  the stripped path cut after \<open>letter + 3\<close> characters: the drive letter, if any, and
  the two separators.
\<close>

theorem GetParent_keeps_alternate_root:
  "GetParent ([BSL, BSL] @ L ''server'' @ [BSL] @ L ''share'') = [BSL, BSL] @ L ''server'' \<and>
   GetParent ([BSL, BSL] @ L ''server'') = [BSL, BSL] \<and>
   (find_last_of (StripTrailingSeparators p) kSeparators (kSeparatorsLength - 1) =
       wrap (FindDriveLetter (StripTrailingSeparators p) + 2) \<and>
    IsSeparator (StripTrailingSeparators p ! wrap (FindDriveLetter (StripTrailingSeparators p) + 1))
    \<longrightarrow>
      GetParent p =
        take (wrap (FindDriveLetter (StripTrailingSeparators p) + 3)) (StripTrailingSeparators p) \<and>
      length (GetParent p) = wrap (FindDriveLetter (StripTrailingSeparators p) + 3) \<and>
      IsSeparator (GetParent p ! wrap (FindDriveLetter (StripTrailingSeparators p) + 1)) \<and>
      IsSeparator (GetParent p ! wrap (FindDriveLetter (StripTrailingSeparators p) + 2)))"
proof (intro conjI impI)
  show "GetParent ([BSL, BSL] @ L ''server'' @ [BSL] @ L ''share'') = [BSL, BSL] @ L ''server''"
    by (rule GetParent_steps) (simp add: path_eval)+
  show "GetParent ([BSL, BSL] @ L ''server'') = [BSL, BSL]"
    by (rule GetParent_steps) (simp add: path_eval)+
next
  let ?q = "StripTrailingSeparators p"
  let ?l = "FindDriveLetter ?q"
  assume a: "find_last_of ?q kSeparators (kSeparatorsLength - 1) = wrap (?l + 2) \<and>
             IsSeparator (?q ! wrap (?l + 1))"
  note g = GetParent_alternate [OF conjunct1 [OF a] conjunct2 [OF a]]
  note w = wrap_letter [OF FindDriveLetter_cases [of ?q]]
  show "GetParent p = take (wrap (?l + 3)) ?q" by (rule g(1))
  show "length (GetParent p) = wrap (?l + 3)"
    using g(2) by (simp add: g(1))
  show "IsSeparator (GetParent p ! wrap (?l + 1))"
    using a w(2) by (simp add: g(1))
  show "IsSeparator (GetParent p ! wrap (?l + 2))"
    using g(3) w(1,2) by (simp add: g(1))
qed

text \<open>
  The parent of \<^verbatim>\<open>"C:\\x"\<close> is \<^verbatim>\<open>"C:\\"\<close>.
\<close>

theorem GetParent_keeps_alternate_root_witness:
  "find_last_of (StripTrailingSeparators (L ''C:'' @ [BSL, BSL] @ L ''x'')) kSeparators
      (kSeparatorsLength - 1) =
     wrap (FindDriveLetter (StripTrailingSeparators (L ''C:'' @ [BSL, BSL] @ L ''x'')) + 2) \<and>
   IsSeparator (StripTrailingSeparators (L ''C:'' @ [BSL, BSL] @ L ''x'') !
     wrap (FindDriveLetter (StripTrailingSeparators (L ''C:'' @ [BSL, BSL] @ L ''x'')) + 1)) \<and>
   GetParent (L ''C:'' @ [BSL, BSL] @ L ''x'') = L ''C:'' @ [BSL, BSL]"
proof -
  have s: "StripTrailingSeparators (L ''C:'' @ [BSL, BSL] @ L ''x'') = L ''C:'' @ [BSL, BSL] @ L ''x''"
    by (simp add: path_eval)
  have a: "find_last_of (StripTrailingSeparators (L ''C:'' @ [BSL, BSL] @ L ''x'')) kSeparators
      (kSeparatorsLength - 1) =
     wrap (FindDriveLetter (StripTrailingSeparators (L ''C:'' @ [BSL, BSL] @ L ''x'')) + 2)"
    unfolding s by (simp add: path_eval)
  have b: "IsSeparator (StripTrailingSeparators (L ''C:'' @ [BSL, BSL] @ L ''x'') !
     wrap (FindDriveLetter (StripTrailingSeparators (L ''C:'' @ [BSL, BSL] @ L ''x'')) + 1))"
    unfolding s by (simp add: path_eval)
  have c: "take (wrap (FindDriveLetter (L ''C:'' @ [BSL, BSL] @ L ''x'') + 3))
             (L ''C:'' @ [BSL, BSL] @ L ''x'') = L ''C:'' @ [BSL, BSL]"
    by (simp add: path_eval)
  have "GetParent (L ''C:'' @ [BSL, BSL] @ L ''x'') =
        take (wrap (FindDriveLetter (StripTrailingSeparators (L ''C:'' @ [BSL, BSL] @ L ''x'')) + 3))
          (StripTrailingSeparators (L ''C:'' @ [BSL, BSL] @ L ''x''))"
    using GetParent_keeps_alternate_root [of "L ''C:'' @ [BSL, BSL] @ L ''x''"] a b by blast
  then have "GetParent (L ''C:'' @ [BSL, BSL] @ L ''x'') = L ''C:'' @ [BSL, BSL]"
    unfolding s c .
  with a b show ?thesis by blast
qed

section \<open>Claim C8: a failed capture of the current directory\<close>

text \<open>
  C8. When the operating system reports the length 0, or a length above
  \<^verbatim>\<open>MAX_PATH\<close>, \<^verbatim>\<open>GetCurrentDirectory\<close> fails and \<^verbatim>\<open>LoadNativeLibraryHelper\<close> is
  the call of the load function alone: the current directory is neither set nor
  restored, the load function receives the path, and its handle is the result.
\<close>

theorem load_tolerates_capture_failure:
  assumes "fst (GetCurrentDirectoryW api MAX_PATH (os s)) = 0 \<or>
           fst (GetCurrentDirectoryW api MAX_PATH (os s)) > MAX_PATH"
  shows "\<not> fst (GetCurrentDirectory api [] s) \<and>
         LoadNativeLibraryHelper api library_path load_library_api s =
           invoke (LoadLibrary_call (c_str library_path))
             (load_library_api (c_str library_path)) s \<and>
         calls (snd (LoadNativeLibraryHelper api library_path load_library_api s)) =
           calls s @ [LoadLibrary_call (c_str library_path)] \<and>
         fst (LoadNativeLibraryHelper api library_path load_library_api s) =
           fst (load_library_api (c_str library_path) (os s)) \<and>
         (nul_free library_path \<longrightarrow>
            calls (snd (LoadNativeLibraryHelper api library_path load_library_api s)) =
              calls s @ [LoadLibrary_call library_path])"
proof -
  have failed: "\<not> fst (GetCurrentDirectory api [] s)"
    using assms by (auto simp: GetCurrentDirectory_def split: prod.splits)
  show ?thesis
    using failed
    by (simp add: LoadNativeLibraryHelper_not_captured [OF failed] invoke_calls invoke_result
        c_str_id)
qed

text \<open>
  A process whose current directory cannot be read still loads \<^verbatim>\<open>"C:\plugins\foo.dll"\<close>.
\<close>

theorem load_tolerates_capture_failure_witness:
  "fst (GetCurrentDirectoryW (mock_api (\<lambda>p. 7) (\<lambda>n. nullptr) (\<lambda>h n. nullptr)) MAX_PATH
     (os (started_in []))) = 0 \<and>
   LoadNativeLibraryHelper (mock_api (\<lambda>p. 7) (\<lambda>n. nullptr) (\<lambda>h n. nullptr))
     (L ''C:'' @ [BSL] @ L ''plugins'' @ [BSL] @ L ''foo.dll'')
     (LoadLibraryW (mock_api (\<lambda>p. 7) (\<lambda>n. nullptr) (\<lambda>h n. nullptr))) (started_in []) =
   (7, \<lparr>calls = [LoadLibrary_call (L ''C:'' @ [BSL] @ L ''plugins'' @ [BSL] @ L ''foo.dll'')],
        os = []\<rparr>)"
proof -
  have a: "fst (GetCurrentDirectoryW (mock_api (\<lambda>p. 7) (\<lambda>n. nullptr) (\<lambda>h n. nullptr)) MAX_PATH
     (os (started_in []))) = 0"
    by (simp add: mock_eval)
  show ?thesis
    using a load_tolerates_capture_failure [OF disjI1 [OF a],
        of "L ''C:'' @ [BSL] @ L ''plugins'' @ [BSL] @ L ''foo.dll''"
           "LoadLibraryW (mock_api (\<lambda>p. 7) (\<lambda>n. nullptr) (\<lambda>h n. nullptr))"]
    by (simp add: invoke_def mock_eval L_def BSL_def)
qed

section \<open>Claim C9: WellKnownLibrary\<close>

text \<open>
  C9. \<^verbatim>\<open>WellKnownLibrary\<close> is false for the empty name, and for a non-empty name it is
  true iff \<^verbatim>\<open>GetModuleHandle\<close> returns a handle for that name.
\<close>

theorem WellKnownLibrary_resident:
  "\<not> WellKnownLibrary api [] s \<and>
   (library_name \<noteq> [] \<longrightarrow>
      WellKnownLibrary api library_name s =
        (GetModuleHandleW api (c_str library_name) (os s) \<noteq> nullptr)) \<and>
   (library_name \<noteq> [] \<and> nul_free library_name \<longrightarrow>
      WellKnownLibrary api library_name s =
        (GetModuleHandleW api library_name (os s) \<noteq> nullptr))"
  by (auto simp: WellKnownLibrary_def c_str_id)

text \<open>
  With \<^verbatim>\<open>user32\<close> resident and \<^verbatim>\<open>gdi32\<close> not.
\<close>

theorem WellKnownLibrary_resident_witness:
  "L ''user32'' \<noteq> [] \<and>
   WellKnownLibrary (mock_api (\<lambda>p. nullptr) (\<lambda>n. if n = L ''user32'' then 5 else nullptr)
      (\<lambda>h n. nullptr)) (L ''user32'') (started_in []) \<and>
   \<not> WellKnownLibrary (mock_api (\<lambda>p. nullptr) (\<lambda>n. if n = L ''user32'' then 5 else nullptr)
      (\<lambda>h n. nullptr)) (L ''gdi32'') (started_in [])"
  using WellKnownLibrary_resident [of
      "mock_api (\<lambda>p. nullptr) (\<lambda>n. if n = L ''user32'' then 5 else nullptr) (\<lambda>h n. nullptr)"
      "started_in []" "L ''user32''"]
    WellKnownLibrary_resident [of
      "mock_api (\<lambda>p. nullptr) (\<lambda>n. if n = L ''user32'' then 5 else nullptr) (\<lambda>h n. nullptr)"
      "started_in []" "L ''gdi32''"]
  by (simp add: mock_eval L_def)

section \<open>Claim C10: the parent is never empty, so a captured load always redirects\<close>

text \<open>
  C10. For every path \<^verbatim>\<open>GetParent\<close> returns a non-empty string; a path with no drive
  letter and no separator gives the current-directory marker \<^verbatim>\<open>"."\<close>. Hence, whenever
  \<^verbatim>\<open>GetCurrentDirectory\<close> succeeds at the start of \<^verbatim>\<open>LoadNativeLibraryHelper\<close>, the
  guard \<^verbatim>\<open>!plugin_path.empty()\<close> holds and the calls of the load are exactly: set the
  current directory to the parent, load, set the current directory back. For the bare
  file name \<^verbatim>\<open>foo.dll\<close> the directory set is \<^verbatim>\<open>"."\<close>.
\<close>

theorem GetParent_never_empty:
  "GetParent path \<noteq> [] \<and>
   (FindDriveLetter path = npos \<and> (\<forall>c\<in>set path. \<not> IsSeparator c) \<longrightarrow>
      GetParent path = L ''.'') \<and>
   (GetCurrentDirectory api [] s = (True, cur) \<longrightarrow>
      calls (snd (LoadNativeLibraryHelper api path load s)) =
        calls s @ [SetCurrentDirectory_call (c_str (GetParent path)),
                   LoadLibrary_call (c_str path), SetCurrentDirectory_call cur]) \<and>
   (GetCurrentDirectory api [] s = (True, cur) \<longrightarrow>
      calls (snd (LoadNativeLibraryHelper api (L ''foo.dll'') load s)) =
        calls s @ [SetCurrentDirectory_call (L ''.''),
                   LoadLibrary_call (L ''foo.dll''), SetCurrentDirectory_call cur])"
proof (intro conjI impI)
  show "GetParent path \<noteq> []" by (rule GetParent_nonempty)
next
  assume "FindDriveLetter path = npos \<and> (\<forall>c\<in>set path. \<not> IsSeparator c)"
  then show "GetParent path = L ''.''"
    using GetParent_current_directory [of path] by (simp add: kCurrentDirectory_def)
next
  assume "GetCurrentDirectory api [] s = (True, cur)"
  then show "calls (snd (LoadNativeLibraryHelper api path load s)) =
        calls s @ [SetCurrentDirectory_call (c_str (GetParent path)),
                   LoadLibrary_call (c_str path), SetCurrentDirectory_call cur]"
    by (rule LoadNativeLibraryHelper_calls)
next
  assume cap: "GetCurrentDirectory api [] s = (True, cur)"
  have "GetParent (L ''foo.dll'') = L ''.''"
    by (rule GetParent_steps) (simp add: path_eval)+
  then show "calls (snd (LoadNativeLibraryHelper api (L ''foo.dll'') load s)) =
        calls s @ [SetCurrentDirectory_call (L ''.''),
                   LoadLibrary_call (L ''foo.dll''), SetCurrentDirectory_call cur]"
    using LoadNativeLibraryHelper_calls [OF cap, of "L ''foo.dll''" load]
    by (simp add: c_str_def L_def)
qed

text \<open>
  A failing load of \<^verbatim>\<open>foo.dll\<close> in a process started in \<^verbatim>\<open>"C:\work"\<close>.
\<close>

theorem GetParent_never_empty_witness:
  "FindDriveLetter (L ''foo.dll'') = npos \<and> \<not> (\<exists>c\<in>set (L ''foo.dll''). IsSeparator c) \<and>
   GetParent (L ''foo.dll'') = L ''.'' \<and>
   GetCurrentDirectory (mock_api (\<lambda>p. nullptr) (\<lambda>n. nullptr) (\<lambda>h n. nullptr)) []
     (started_in (L ''C:'' @ [BSL] @ L ''work'')) = (True, L ''C:'' @ [BSL] @ L ''work'') \<and>
   calls (snd (LoadNativeLibraryHelper (mock_api (\<lambda>p. nullptr) (\<lambda>n. nullptr) (\<lambda>h n. nullptr))
       (L ''foo.dll'') (\<lambda>p w. (nullptr, w)) (started_in (L ''C:'' @ [BSL] @ L ''work'')))) =
     [SetCurrentDirectory_call (L ''.''), LoadLibrary_call (L ''foo.dll''),
      SetCurrentDirectory_call (L ''C:'' @ [BSL] @ L ''work'')]"
proof -
  have a: "FindDriveLetter (L ''foo.dll'') = npos"
    by (simp add: path_eval)
  have b: "\<forall>c\<in>set (L ''foo.dll''). \<not> IsSeparator c"
    by (simp add: path_eval)
  have c: "GetCurrentDirectory (mock_api (\<lambda>p. nullptr) (\<lambda>n. nullptr) (\<lambda>h n. nullptr)) []
     (started_in (L ''C:'' @ [BSL] @ L ''work'')) = (True, L ''C:'' @ [BSL] @ L ''work'')"
    by (simp add: mock_eval path_eval)
  show ?thesis
    using a b c
      GetParent_never_empty [of "L ''foo.dll''"
        "mock_api (\<lambda>p. nullptr) (\<lambda>n. nullptr) (\<lambda>h n. nullptr)"
        "started_in (L ''C:'' @ [BSL] @ L ''work'')" "L ''C:'' @ [BSL] @ L ''work''"
        "\<lambda>p w. (nullptr, w)"]
    by (simp add: started_in_def c_str_def L_def)
qed

end
